theory Spec2Isabelle
  imports Main
begin

section \<open>The command interpreter of the daemon: \<open>readcmd\<close>\<close>

text \<open>
  A shallow embedding of \<open>readcmd\<close> and \<open>timespec_diff_ns\<close>. The interpreter reads one
  line, splits it at spaces, and turns the words into calls of the device's operation table
  and of a few other procedures of the daemon. Those procedures are not part of the file;
  they are a parameter \<open>ext\<close> of the model (a function from the call and the device to a
  return code and the device afterwards), and every call is logged with the device it was
  made on and the code it returned.
\<close>

subsection \<open>The C library: character classes and \<open>sscanf\<close> conversions\<close>

text \<open>
  \<open>sscanf\<close> is modelled after ISO C (7.21.6.2), for the eight formats the interpreter
  uses. A conversion either converts (\<open>Conv\<close>, with the value and the input left), fails
  to match (\<open>MatchFail\<close>: \<open>sscanf\<close> stops and returns the number of assignments so far)
  or finds the input at its end (\<open>InputFail\<close>: \<open>sscanf\<close> returns \<open>EOF\<close> when nothing
  was assigned yet).
\<close>

datatype 'a scan = Conv 'a string | MatchFail | InputFail

definition isspace :: "char \<Rightarrow> bool" where
  "isspace c = (c = CHR '' '' \<or> (9 \<le> (of_char c :: nat) \<and> (of_char c :: nat) \<le> 13))"

definition isdigit :: "char \<Rightarrow> bool" where
  "isdigit c = (48 \<le> (of_char c :: nat) \<and> (of_char c :: nat) \<le> 57)"

definition isxdigit :: "char \<Rightarrow> bool" where
  "isxdigit c = (isdigit c
      \<or> (97 \<le> (of_char c :: nat) \<and> (of_char c :: nat) \<le> 102)
      \<or> (65 \<le> (of_char c :: nat) \<and> (of_char c :: nat) \<le> 70))"

definition digit_val :: "char \<Rightarrow> int" where
  "digit_val c = (let n = (of_char c :: nat) in
     if 97 \<le> n then int n - 87 else if 65 \<le> n then int n - 55 else int n - 48)"

definition is_digit_of :: "nat \<Rightarrow> char \<Rightarrow> bool" where
  "is_digit_of base c = (if base = 16 then isxdigit c else isdigit c)"

definition number_of :: "nat \<Rightarrow> string \<Rightarrow> int" where
  "number_of base ds = foldl (\<lambda>a c. a * int base + digit_val c) 0 ds"

text \<open>
  A numeric conversion (\<open>%d\<close>, \<open>%u\<close>, \<open>%x\<close>, with an optional field width): white space
  is skipped, then the longest input within the width that is an optional sign, for base 16
  an optional \<open>0x\<close>, and digits. No digit is a matching failure (also after a
  \<open>0x\<close>). The value is the mathematical one; \<open>int32\<close> and \<open>uint32\<close> below
  store it in a C variable.
\<close>

definition scan_num :: "nat \<Rightarrow> nat option \<Rightarrow> string \<Rightarrow> int scan" where
  "scan_num base width s =
     (let s0 = dropWhile isspace s in
      if s0 = [] then InputFail
      else
        let lim = (case width of None \<Rightarrow> s0 | Some n \<Rightarrow> take n s0);
            neg = (lim \<noteq> [] \<and> hd lim = CHR ''-'');
            k1 = (if lim \<noteq> [] \<and> (hd lim = CHR ''-'' \<or> hd lim = CHR ''+'') then 1 else 0);
            l1 = drop k1 lim;
            k2 = (if base = 16 \<and> 2 \<le> length l1 \<and> l1 ! 0 = CHR ''0''
                     \<and> (l1 ! 1 = CHR ''x'' \<or> l1 ! 1 = CHR ''X'') then 2 else 0);
            ds = takeWhile (is_digit_of base) (drop k2 l1);
            v = number_of base ds
        in if ds = [] then MatchFail
           else Conv (if neg then - v else v) (drop (k1 + k2 + length ds) s0))"

text \<open>
  Storing a converted value in an \<open>int\<close> or an \<open>unsigned\<close> of 32 bits. ISO C leaves a
  value that does not fit undefined; the model keeps the low 32 bits.
\<close>

definition int32 :: "int \<Rightarrow> int" where
  "int32 v = (v + 2 ^ 31) mod 2 ^ 32 - 2 ^ 31"

definition uint32 :: "int \<Rightarrow> int" where
  "uint32 v = v mod 2 ^ 32"

text \<open>An ordinary character of the format: it must be the next character of the input.\<close>

definition scan_lit :: "char \<Rightarrow> string \<Rightarrow> unit scan" where
  "scan_lit ch s = (case s of [] \<Rightarrow> InputFail
                    | c # cs \<Rightarrow> if c = ch then Conv () cs else MatchFail)"

text \<open>The return value of an \<open>sscanf\<close> with one conversion.\<close>

definition EOF :: int where
  "EOF = - 1"

definition scan_ret :: "'a scan \<Rightarrow> int" where
  "scan_ret r = (case r of Conv v rest \<Rightarrow> 1 | MatchFail \<Rightarrow> 0 | InputFail \<Rightarrow> EOF)"

text \<open>\<open>sscanf(word, "@%d", &newnotify)\<close>\<close>

definition sscanf_at_d :: "string \<Rightarrow> int scan" where
  "sscanf_at_d word = (case scan_lit CHR ''@'' word of
       Conv u rest \<Rightarrow> (case scan_num 10 None rest of
                         Conv v r \<Rightarrow> Conv (int32 v) r | MatchFail \<Rightarrow> MatchFail
                       | InputFail \<Rightarrow> InputFail)
     | MatchFail \<Rightarrow> MatchFail | InputFail \<Rightarrow> InputFail)"

text \<open>\<open>sscanf(word, "%d", &n)\<close> and \<open>sscanf(word, "%u", &n)\<close>\<close>

definition sscanf_d :: "string \<Rightarrow> int scan" where
  "sscanf_d word = (case scan_num 10 None word of
       Conv v r \<Rightarrow> Conv (int32 v) r | MatchFail \<Rightarrow> MatchFail | InputFail \<Rightarrow> InputFail)"

definition sscanf_u :: "string \<Rightarrow> int scan" where
  "sscanf_u word = (case scan_num 10 None word of
       Conv v r \<Rightarrow> Conv (uint32 v) r | MatchFail \<Rightarrow> MatchFail | InputFail \<Rightarrow> InputFail)"

text \<open>\<open>sscanf(keyname, "#%u", &keycode)\<close> and \<open>sscanf(keyname, "#x%x", &keycode)\<close>\<close>

definition sscanf_hash_u :: "string \<Rightarrow> int scan" where
  "sscanf_hash_u s = (case scan_lit CHR ''#'' s of
       Conv u rest \<Rightarrow> (case scan_num 10 None rest of
                         Conv v r \<Rightarrow> Conv (uint32 v) r | MatchFail \<Rightarrow> MatchFail
                       | InputFail \<Rightarrow> InputFail)
     | MatchFail \<Rightarrow> MatchFail | InputFail \<Rightarrow> InputFail)"

definition sscanf_hash_x :: "string \<Rightarrow> int scan" where
  "sscanf_hash_x s = (case scan_lit CHR ''#'' s of
       Conv u rest \<Rightarrow> (case scan_lit CHR ''x'' rest of
           Conv u' rest' \<Rightarrow> (case scan_num 16 None rest' of
                               Conv v r \<Rightarrow> Conv (uint32 v) r | MatchFail \<Rightarrow> MatchFail
                             | InputFail \<Rightarrow> InputFail)
         | MatchFail \<Rightarrow> MatchFail | InputFail \<Rightarrow> InputFail)
     | MatchFail \<Rightarrow> MatchFail | InputFail \<Rightarrow> InputFail)"

text \<open>
  \<open>sscanf(word, "%02x%02x%02x", &r, &g, &b)\<close>: three hexadecimal fields of at most two
  characters each. Only the return value is used by the caller.
\<close>

definition sscanf_rgb :: "string \<Rightarrow> int" where
  "sscanf_rgb word = (case scan_num 16 (Some 2) word of
       Conv r rest1 \<Rightarrow> (case scan_num 16 (Some 2) rest1 of
           Conv g rest2 \<Rightarrow> (case scan_num 16 (Some 2) rest2 of
                              Conv b rest3 \<Rightarrow> 3 | MatchFail \<Rightarrow> 2 | InputFail \<Rightarrow> 2)
         | MatchFail \<Rightarrow> 1 | InputFail \<Rightarrow> 1)
     | MatchFail \<Rightarrow> 0 | InputFail \<Rightarrow> EOF)"

text \<open>
  \<open>int left = -1; sscanf(word, "%*[^:]%n", &left)\<close>: the number of characters before
  the first colon, when there is at least one; \<open>left\<close> keeps \<open>-1\<close> otherwise.
\<close>

definition colon_left :: "string \<Rightarrow> int" where
  "colon_left word = (let p = takeWhile (\<lambda>c. c \<noteq> CHR '':'') word
                      in if p = [] then - 1 else int (length p))"

text \<open>
  \<open>sscanf(word + position, "%10[^:,]%n", keyname, &field) == 1\<close>: at most ten characters
  up to a colon or comma; \<open>None\<close> when there is none (the return value is not 1).
\<close>

definition scan_keyname :: "string \<Rightarrow> (string \<times> nat) option" where
  "scan_keyname s = (let p = takeWhile (\<lambda>c. c \<noteq> CHR '':'' \<and> c \<noteq> CHR '','') (take 10 s)
                     in if p = [] then None else Some (p, length p))"

text \<open>
  \<open>strtok_r(line, " ", &ptr)\<close> called until it returns \<open>NULL\<close>: the maximal runs of
  characters other than the space, in order. \<open>cur\<close> is the word being read, reversed.
\<close>

fun strtok_acc :: "string \<Rightarrow> string \<Rightarrow> string list" where
  "strtok_acc cur [] = (if cur = [] then [] else [rev cur])"
| "strtok_acc cur (c # cs) =
     (if c = CHR '' '' then (if cur = [] then strtok_acc [] cs else rev cur # strtok_acc [] cs)
      else strtok_acc (c # cur) cs)"

definition strtok_words :: "string \<Rightarrow> string list" where
  "strtok_words line = strtok_acc [] line"

subsection \<open>The data model\<close>

text \<open>
  The verbs, in the order of \<open>cmd_strings\<close>; \<open>NONE\<close> is the implicit first value of the
  enumeration.
\<close>

datatype cmd =
    NONE
  | DELAY | MODE | SWITCH | LAYOUT | ACCEL | SCROLLSPEED | NOTIFYON | NOTIFYOFF | FPS | DITHER
  | HWLOAD | HWSAVE | FWUPDATE | POLLRATE
  | ACTIVE | IDLE
  | ERASE | ERASEPROFILE | NAME | PROFILENAME | ID | PROFILEID
  | RGB | HWANIM | IOFF | ION | IAUTO
  | BIND | UNBIND | REBIND | MACRO
  | DPI | DPISEL | LIFT | SNAP
  | NOTIFY | INOTIFY | GET
  | RESET

text \<open>
  Modelled from the spec: the declaration of the enumeration \<open>cmd\<close> is not in the file; the
  verb strings are paired with the values in the order of the spec's vocabulary, so that the
  entry at index \<open>i\<close> is the verb \<open>i + CMD_FIRST\<close>.
\<close>

definition cmd_strings :: "(string \<times> cmd) list" where
  "cmd_strings =
    [(''delay'', DELAY), (''mode'', MODE), (''switch'', SWITCH), (''layout'', LAYOUT),
     (''accel'', ACCEL), (''scrollspeed'', SCROLLSPEED), (''notifyon'', NOTIFYON),
     (''notifyoff'', NOTIFYOFF), (''fps'', FPS), (''dither'', DITHER),
     (''hwload'', HWLOAD), (''hwsave'', HWSAVE), (''fwupdate'', FWUPDATE),
     (''pollrate'', POLLRATE),
     (''active'', ACTIVE), (''idle'', IDLE),
     (''erase'', ERASE), (''eraseprofile'', ERASEPROFILE), (''name'', NAME),
     (''profilename'', PROFILENAME), (''id'', ID), (''profileid'', PROFILEID),
     (''rgb'', RGB), (''hwanim'', HWANIM), (''ioff'', IOFF), (''ion'', ION), (''iauto'', IAUTO),
     (''bind'', BIND), (''unbind'', UNBIND), (''rebind'', REBIND), (''macro'', MACRO),
     (''dpi'', DPI), (''dpisel'', DPISEL), (''lift'', LIFT), (''snap'', SNAP),
     (''notify'', NOTIFY), (''inotify'', INOTIFY), (''get'', GET),
     (''reset'', RESET)]"

text \<open>
  Modelled from the spec: the enumeration \<open>pollrate_t\<close> is not in the file; the rates are
  ranked in the order the interpreter tests them, the shortest interval highest.
\<close>

datatype pollrate_t =
  POLLRATE_8MS | POLLRATE_4MS | POLLRATE_2MS | POLLRATE_1MS
  | POLLRATE_05MS | POLLRATE_025MS | POLLRATE_01MS

fun pollrate_rank :: "pollrate_t \<Rightarrow> nat" where
  "pollrate_rank POLLRATE_8MS = 0"
| "pollrate_rank POLLRATE_4MS = 1"
| "pollrate_rank POLLRATE_2MS = 2"
| "pollrate_rank POLLRATE_1MS = 3"
| "pollrate_rank POLLRATE_05MS = 4"
| "pollrate_rank POLLRATE_025MS = 5"
| "pollrate_rank POLLRATE_01MS = 6"

text \<open>
  Modelled from the spec: the feature bits are not in the file; \<open>features\<close> is the set of
  the bits that are on, and the layout mask \<open>FEAT_LMASK\<close> holds the two layout bits.
\<close>

datatype feature =
  FEAT_BIND | FEAT_NOTIFY | FEAT_ADJRATE | FEAT_ANSI | FEAT_ISO | FEAT_MOUSEACCEL

definition FEAT_LMASK :: "feature set" where
  "FEAT_LMASK = {FEAT_ANSI, FEAT_ISO}"

record timespec =
  tv_sec :: int
  tv_nsec :: int

text \<open>
  A mode: the \<open>forceupdate\<close> flag of its light and the \<open>triggered\<close> flags of the macros
  of its binding (\<open>macrocount\<close> is the length of the list).
\<close>

record usbmode =
  light_forceupdate :: int
  macros_triggered :: "int list"

text \<open>
  A profile: its modes, and the index of the current one. A pointer to a mode of the profile
  is the index of the mode. The local pointer \<open>profile\<close> of \<open>readcmd\<close> is the profile
  of the device: it is read from the device on entry and again after \<open>eraseprofile\<close>, the
  one operation after which the source reads it again.
\<close>

record usbprofile =
  modes :: "nat \<Rightarrow> usbmode"
  currentmode :: nat

text \<open>
  The device: the fields the interpreter reads or writes. \<open>needs_fw_update\<close>,
  \<open>is_mouse_dev\<close> and \<open>is_fullrange\<close> are what the macros \<open>NEEDS_FW_UPDATE\<close>,
  \<open>IS_MOUSE_DEV\<close> and \<open>IS_FULLRANGE\<close> compute from the device (they are not in the file).
  \<open>keymap\<close> gives the name of each key index, when it has one. \<open>encounteredleds\<close> is the
  set of the key indices marked in the debugging scratch array.
\<close>

record usbdevice =
  active :: bool
  needs_fw_update :: bool
  features :: "feature set"
  usbdelay :: int
  dither :: int
  scroll_rate :: int
  maxpollrate :: pollrate_t
  is_mouse_dev :: bool
  is_fullrange :: bool
  keymap :: "nat \<Rightarrow> string option"
  last_rgb :: timespec
  encounteredleds :: "nat set"
  profile :: usbprofile

text \<open>
  The constants and compile-time switches that other files define: the number of key indices,
  of notification channels and of modes, the scroll limits, the platform and the build.
  \<open>indeterminate\<close> is the value read from \<open>keycode\<close> when no conversion has assigned it.
\<close>

record platform =
  N_KEYS_EXTENDED :: nat
  OUTFIFO_MAX :: int
  MODE_COUNT :: int
  SCROLL_MIN :: int
  SCROLL_MAX :: int
  SCROLL_ACCELERATED :: int
  OS_MAC :: bool
  OS_MAC_LEGACY :: bool
  NDEBUG :: bool
  indeterminate :: int

text \<open>
  The calls the interpreter makes outside this file. A mode argument is the index of the mode
  in the profile; the other arguments are as in the source.
\<close>

datatype call =
    Mknotifynode int
  | Rmnotifynode int
  | Vt_get nat int int string
  | Vt_reset nat int int string
  | Vt_active nat int
  | Vt_idle nat int
  | Vt_setmodeindex nat
  | Vt_do_io cmd nat int
  | Vt_updatergb int
  | Vt_updatedpi int
  | Vt_fwupdate nat int string
  | Vt_pollrate pollrate_t
  | Vt_eraseprofile nat int
  | Vt_do_cmd cmd nat int int string
  | Vt_rgb nat int int string
  | Vt_macro nat int
  | Vt_do_macro cmd nat int string string
  | Usb_tryreset
  | Mutex_lock
  | Mutex_unlock
  | Ckb_err string
  | Ckb_warn int
  | Clock_nanosleep int

type_synonym extern = "call \<Rightarrow> usbdevice \<Rightarrow> int \<times> usbdevice"

text \<open>
  The state the interpreter works on: the device, and the log of the calls made so far, each
  with the device it was made on and the code it returned.
\<close>

record world =
  kb :: usbdevice
  calls :: "(call \<times> usbdevice \<times> int) list"

definition invoke :: "extern \<Rightarrow> call \<Rightarrow> world \<Rightarrow> int \<times> world" where
  "invoke ext c w = (case ext c (kb w) of
      (r, d) \<Rightarrow> (r, \<lparr>kb = d, calls = calls w @ [(c, kb w, r)]\<rparr>))"

text \<open>A call whose result is not used.\<close>

definition perform :: "extern \<Rightarrow> call \<Rightarrow> world \<Rightarrow> world" where
  "perform ext c w = snd (invoke ext c w)"

text \<open>
  Logging, locking and sleeping do not go through the operation table and do not touch the
  device; they are logged only.
\<close>

definition note_call :: "call \<Rightarrow> world \<Rightarrow> world" where
  "note_call c w = w\<lparr>calls := calls w @ [(c, kb w, 0)]\<rparr>"

text \<open>
  The variables of \<open>readcmd\<close> that live across the words of a line; \<open>mode\<close> is the
  index of the mode that the local pointer \<open>mode\<close> points to.
\<close>

record vars =
  command :: cmd
  notifynumber :: int
  mode :: nat

subsection \<open>The retry harness \<open>TRY_WITH_RESET\<close>\<close>

text \<open>
  \<open>while(action){ if(usb_tryreset(kb)) return 1; }\<close>. The loop need not end, so the
  function is partial: \<open>None\<close> is a loop that runs forever, \<open>Some (Inl w)\<close> is the
  \<open>return 1\<close> out of \<open>readcmd\<close>, \<open>Some (Inr w)\<close> is the loop left with the action
  having returned zero.
\<close>

partial_function (option) try_with_reset ::
  "extern \<Rightarrow> call \<Rightarrow> world \<Rightarrow> (world + world) option" where
  "try_with_reset ext action w =
     (case invoke ext action w of
        (r, w1) \<Rightarrow>
          if r = 0 then Some (Inr w1)
          else (case invoke ext Usb_tryreset w1 of
                  (r2, w2) \<Rightarrow>
                    if r2 \<noteq> 0 then Some (Inl w2)
                    else try_with_reset ext action w2))"

declare try_with_reset.simps [code]

text \<open>What follows a harness: nothing when it returned from \<open>readcmd\<close> or never ended.\<close>

definition and_then ::
  "(world + world) option \<Rightarrow> (world \<Rightarrow> (world + 'a) option) \<Rightarrow> (world + 'a) option" where
  "and_then r k = (case r of None \<Rightarrow> None | Some (Inl w) \<Rightarrow> Some (Inl w) | Some (Inr w) \<Rightarrow> k w)"

subsection \<open>\<open>timespec_diff_ns\<close> and the rate limiter\<close>

text \<open>
  \<open>long\<close> and \<open>time_t\<close> are taken as 64-bit two's complement integers (LP64); a result
  out of range wraps around.
\<close>

definition LONG_MAX :: int where
  "LONG_MAX = 2 ^ 63 - 1"

definition long_wrap :: "int \<Rightarrow> int" where
  "long_wrap v = (v + 2 ^ 63) mod 2 ^ 64 - 2 ^ 63"

definition HERTZ_LIM :: int where
  "HERTZ_LIM = 16528925"

definition timespec_diff_ns :: "timespec \<Rightarrow> timespec \<Rightarrow> int" where
  "timespec_diff_ns a b =
     (let diff_s = long_wrap (tv_sec a - tv_sec b);
          diff_ns = long_wrap (tv_nsec a - tv_nsec b)
      in if diff_ns > 0 \<and> (LONG_MAX - diff_ns) div 1000000000 \<le> diff_s then LONG_MAX
         else long_wrap (diff_ns + long_wrap (diff_s * 1000000000)))"

text \<open>
  The body of \<open>if(command == RGB)\<close> at the end of \<open>readcmd\<close>; \<open>now\<close> is what
  \<open>clock_gettime(CLOCK_MONOTONIC, &now)\<close> has read. The warning is compiled in debug builds
  only.
\<close>

definition rate_limit :: "platform \<Rightarrow> timespec \<Rightarrow> world \<Rightarrow> world" where
  "rate_limit cfg now w =
     (let diff = timespec_diff_ns now (last_rgb (kb w)) in
      if diff > 0 \<and> diff < HERTZ_LIM then
        let w1 = (if NDEBUG cfg then w else note_call (Ckb_warn diff) w);
            sleep_ns = HERTZ_LIM - diff;
            w2 = note_call (Clock_nanosleep sleep_ns) w1
        in w2\<lparr>kb := (kb w2)\<lparr>last_rgb := now\<lparr>tv_nsec := tv_nsec now + sleep_ns\<rparr>\<rparr>\<rparr>
      else w\<lparr>kb := (kb w)\<lparr>last_rgb := now\<rparr>\<rparr>)"

text \<open>The end of \<open>readcmd\<close>, after the last word: the result is the return value.\<close>

definition clear_leds :: "platform \<Rightarrow> cmd \<Rightarrow> world \<Rightarrow> world" where
  "clear_leds cfg c w =
     (if \<not> NDEBUG cfg \<and> c = RGB then w\<lparr>kb := (kb w)\<lparr>encounteredleds := {}\<rparr>\<rparr> else w)"

definition readcmd_finish ::
  "platform \<Rightarrow> extern \<Rightarrow> timespec \<Rightarrow> cmd \<Rightarrow> world \<Rightarrow> (int \<times> world) option" where
  "readcmd_finish cfg ext now c w =
     (if \<not> needs_fw_update (kb w) then
        (let w1 = (if c = RGB then rate_limit cfg now w else w) in
         case try_with_reset ext (Vt_updatergb 0) w1 of
           None \<Rightarrow> None
         | Some (Inl w2) \<Rightarrow> Some (1, w2)
         | Some (Inr w2) \<Rightarrow>
             (case try_with_reset ext (Vt_updatedpi 0) w2 of
                None \<Rightarrow> None
              | Some (Inl w3) \<Rightarrow> Some (1, w3)
              | Some (Inr w3) \<Rightarrow> Some (0, clear_leds cfg c w3)))
      else Some (0, clear_leds cfg c w))"

subsection \<open>One word of the line\<close>

text \<open>
  The search of the word in \<open>cmd_strings\<close>: the new value of \<open>command\<close>, and whether the
  \<open>goto next_loop\<close> is taken (the verb waits for its parameter).
\<close>

definition is_action :: "cmd \<Rightarrow> bool" where
  "is_action c = (c = SWITCH \<or> c = HWLOAD \<or> c = HWSAVE \<or> c = ACTIVE \<or> c = IDLE
                  \<or> c = ERASE \<or> c = ERASEPROFILE)"

definition match_verb :: "platform \<Rightarrow> string \<Rightarrow> cmd \<Rightarrow> cmd \<times> bool" where
  "match_verb cfg word c0 =
     (case map_of cmd_strings word of
        None \<Rightarrow> (c0, False)
      | Some c \<Rightarrow>
          (let c' = (if \<not> OS_MAC cfg \<and> (c = LAYOUT \<or> c = ACCEL \<or> c = SCROLLSPEED)
                     then NONE else c)
           in (c', \<not> is_action c')))"

text \<open>\<open>sscanf(word, "@%d", &newnotify) == 1 && newnotify < OUTFIFO_MAX\<close>\<close>

definition select_channel :: "platform \<Rightarrow> string \<Rightarrow> int option" where
  "select_channel cfg word =
     (case sscanf_at_d word of
        Conv newnotify r \<Rightarrow> if newnotify < OUTFIFO_MAX cfg then Some newnotify else None
      | MatchFail \<Rightarrow> None
      | InputFail \<Rightarrow> None)"

definition rejected :: "usbdevice \<Rightarrow> cmd \<Rightarrow> bool" where
  "rejected d c =
     (c = NONE
      \<or> (FEAT_BIND \<notin> features d
           \<and> (c = BIND \<or> c = UNBIND \<or> c = REBIND \<or> c = MACRO \<or> c = DELAY))
      \<or> (FEAT_NOTIFY \<notin> features d \<and> c = NOTIFY))"

definition fw_gate :: "usbdevice \<Rightarrow> cmd \<Rightarrow> bool" where
  "fw_gate d c =
     (needs_fw_update d \<and> c \<noteq> FWUPDATE \<and> c \<noteq> NOTIFYON \<and> c \<noteq> NOTIFYOFF \<and> c \<noteq> RESET)"

definition set_layout :: "feature \<Rightarrow> world \<Rightarrow> world" where
  "set_layout f w = w\<lparr>kb := (kb w)\<lparr>features := (features (kb w) - FEAT_LMASK) \<union> {f}\<rparr>\<rparr>"

definition set_fps :: "int \<Rightarrow> world \<Rightarrow> world" where
  "set_fps framerate w =
     (let per_frame = (if is_mouse_dev (kb w) then 2 else if is_fullrange (kb w) then 14 else 5);
          delay0 = 1000 div framerate div per_frame;
          delay = (if delay0 < 2 then 2 else if delay0 > 10 then 10 else delay0)
      in w\<lparr>kb := (kb w)\<lparr>usbdelay := delay\<rparr>\<rparr>)"

definition set_dither :: "int \<Rightarrow> nat \<Rightarrow> world \<Rightarrow> world" where
  "set_dither n m w =
     (let p = profile (kb w);
          ms1 = (modes p)(currentmode p := (modes p (currentmode p))\<lparr>light_forceupdate := 1\<rparr>);
          ms2 = ms1(m := (ms1 m)\<lparr>light_forceupdate := 1\<rparr>)
      in w\<lparr>kb := (kb w)\<lparr>dither := n, profile := p\<lparr>modes := ms2\<rparr>\<rparr>\<rparr>)"

text \<open>
  The first \<open>switch\<close>: the commands that are handled whether the device is active or not.
  \<open>Some\<close> is the \<open>continue\<close> of the case, \<open>None\<close> is the \<open>switch\<close> left with nothing
  done (\<open>default\<close>, or the \<open>break\<close> of \<open>SCROLLSPEED\<close>).
\<close>

definition always_cmd ::
  "platform \<Rightarrow> extern \<Rightarrow> string \<Rightarrow> vars \<Rightarrow> world \<Rightarrow> (vars \<times> world) option" where
  "always_cmd cfg ext word v w =
     (case command v of
        NOTIFYON \<Rightarrow>
          (case sscanf_d word of
             Conv notify r \<Rightarrow> Some (v, perform ext (Mknotifynode notify) w)
           | MatchFail \<Rightarrow> Some (v, w)
           | InputFail \<Rightarrow> Some (v, w))
      | NOTIFYOFF \<Rightarrow>
          (case sscanf_d word of
             Conv notify r \<Rightarrow>
               if notify \<noteq> 0 then Some (v, perform ext (Rmnotifynode notify) w) else Some (v, w)
           | MatchFail \<Rightarrow> Some (v, w)
           | InputFail \<Rightarrow> Some (v, w))
      | GET \<Rightarrow> Some (v, perform ext (Vt_get (mode v) (notifynumber v) 0 word) w)
      | LAYOUT \<Rightarrow>
          (if word = ''ansi'' then Some (v, set_layout FEAT_ANSI w)
           else if word = ''iso'' then Some (v, set_layout FEAT_ISO w)
           else Some (v, w))
      | ACCEL \<Rightarrow>
          (if OS_MAC_LEGACY cfg then
             (if word = ''on''
              then Some (v, w\<lparr>kb := (kb w)\<lparr>features := features (kb w) \<union> {FEAT_MOUSEACCEL}\<rparr>\<rparr>)
              else if word = ''off''
              then Some (v, w\<lparr>kb := (kb w)\<lparr>features := features (kb w) - {FEAT_MOUSEACCEL}\<rparr>\<rparr>)
              else Some (v, w))
           else None)
      | SCROLLSPEED \<Rightarrow>
          (if OS_MAC_LEGACY cfg then
             (case sscanf_d word of
                Conv newscroll r \<Rightarrow>
                  (let n1 = (if newscroll < SCROLL_MIN cfg then SCROLL_ACCELERATED cfg
                             else newscroll);
                       n2 = (if n1 > SCROLL_MAX cfg then SCROLL_MAX cfg else n1)
                   in Some (v, w\<lparr>kb := (kb w)\<lparr>scroll_rate := n2\<rparr>\<rparr>))
              | MatchFail \<Rightarrow> None
              | InputFail \<Rightarrow> None)
           else None)
      | MODE \<Rightarrow>
          (case sscanf_d word of
             Conv newmode r \<Rightarrow>
               if newmode > 0 \<and> newmode \<le> MODE_COUNT cfg
               then Some (v\<lparr>mode := nat (newmode - 1)\<rparr>, w) else Some (v, w)
           | MatchFail \<Rightarrow> Some (v, w)
           | InputFail \<Rightarrow> Some (v, w))
      | FPS \<Rightarrow>
          (case sscanf_u word of
             Conv framerate r \<Rightarrow>
               if framerate > 0 then Some (v, set_fps framerate w) else Some (v, w)
           | MatchFail \<Rightarrow> Some (v, w)
           | InputFail \<Rightarrow> Some (v, w))
      | DITHER \<Rightarrow>
          (case sscanf_u word of
             Conv n r \<Rightarrow> if n \<le> 1 then Some (v, set_dither n (mode v) w) else Some (v, w)
           | MatchFail \<Rightarrow> Some (v, w)
           | InputFail \<Rightarrow> Some (v, w))
      | DELAY \<Rightarrow> Some (v, w)
      | RESET \<Rightarrow> Some (v, perform ext (Vt_reset (mode v) (notifynumber v) 0 word) w)
      | _ \<Rightarrow> None)"

subsection \<open>The commands of an active device\<close>

text \<open>\<open>SWITCH\<close>, when the selected mode is not the current one.\<close>

definition switch_mode :: "extern \<Rightarrow> nat \<Rightarrow> world \<Rightarrow> world" where
  "switch_mode ext m w =
     (let w1 = note_call Mutex_lock w;
          p = profile (kb w1);
          cur = modes p (currentmode p);
          p' = p\<lparr>modes := (modes p)(currentmode p :=
                   cur\<lparr>macros_triggered := map (\<lambda>t. 0) (macros_triggered cur)\<rparr>),
                 currentmode := m\<rparr>;
          w2 = note_call Mutex_unlock (w1\<lparr>kb := (kb w1)\<lparr>profile := p'\<rparr>\<rparr>)
      in perform ext (Vt_setmodeindex m) w2)"

text \<open>\<open>HWLOAD\<close> and \<open>HWSAVE\<close>.\<close>

definition hw_io :: "extern \<Rightarrow> vars \<Rightarrow> world \<Rightarrow> (world + vars \<times> world) option" where
  "hw_io ext v w =
     (let delay = usbdelay (kb w);
          w1 = (if delay < 10 then w\<lparr>kb := (kb w)\<lparr>usbdelay := 10\<rparr>\<rparr> else w)
      in and_then (try_with_reset ext (Vt_do_io (command v) (mode v) (notifynumber v)) w1)
           (\<lambda>w2. and_then (try_with_reset ext (Vt_updatergb 1) w2)
              (\<lambda>w3. Some (Inr (v, w3\<lparr>kb := (kb w3)\<lparr>usbdelay := delay\<rparr>\<rparr>)))))"

text \<open>\<open>POLLRATE\<close>.\<close>

definition pollrate_of :: "string \<Rightarrow> pollrate_t option" where
  "pollrate_of word =
     (if word = ''8'' then Some POLLRATE_8MS
      else if word = ''4'' then Some POLLRATE_4MS
      else if word = ''2'' then Some POLLRATE_2MS
      else if word = ''1'' then Some POLLRATE_1MS
      else if word = ''0.5'' then Some POLLRATE_05MS
      else if word = ''0.25'' then Some POLLRATE_025MS
      else if word = ''0.1'' then Some POLLRATE_01MS
      else None)"

definition set_pollrate ::
  "extern \<Rightarrow> string \<Rightarrow> vars \<Rightarrow> world \<Rightarrow> (world + vars \<times> world) option" where
  "set_pollrate ext word v w =
     (if FEAT_ADJRATE \<in> features (kb w) then
        (case pollrate_of word of
           None \<Rightarrow> Some (Inr (v, w))
         | Some rate \<Rightarrow>
             if pollrate_rank rate > pollrate_rank (maxpollrate (kb w))
             then Some (Inr (v, note_call (Ckb_err word) w))
             else and_then (try_with_reset ext (Vt_pollrate rate) w) (\<lambda>w1. Some (Inr (v, w1))))
      else Some (Inr (v, w)))"

text \<open>The loops over all key indices, in \<open>RGB\<close> with a hex constant and for the key \<open>all\<close>.\<close>

definition rgb_all :: "platform \<Rightarrow> extern \<Rightarrow> nat \<Rightarrow> string \<Rightarrow> world \<Rightarrow> world" where
  "rgb_all cfg ext m word w =
     foldl (\<lambda>w' i. perform ext (Vt_rgb m (- 1) (int i) word) w') w [0..<N_KEYS_EXTENDED cfg]"

definition cmd_all ::
  "platform \<Rightarrow> extern \<Rightarrow> cmd \<Rightarrow> nat \<Rightarrow> int \<Rightarrow> string \<Rightarrow> world \<Rightarrow> world" where
  "cmd_all cfg ext c m n right w =
     foldl (\<lambda>w' i. perform ext (Vt_do_cmd c m n (int i) right) w') w [0..<N_KEYS_EXTENDED cfg]"

text \<open>
  The test of a numeric key name, \<open>#\<close> with a decimal or \<open>#x\<close> with a hexadecimal number.
  Each \<open>sscanf\<close> is tested for a return value other than zero, which \<open>EOF\<close> is too, and
  \<open>keycode\<close> is then compared without having been assigned.
\<close>

definition numeric_key :: "platform \<Rightarrow> string \<Rightarrow> int option" where
  "numeric_key cfg keyname =
     (let r1 = sscanf_hash_u keyname;
          k1 = (case r1 of Conv k r \<Rightarrow> k | MatchFail \<Rightarrow> indeterminate cfg
                | InputFail \<Rightarrow> indeterminate cfg)
      in if scan_ret r1 \<noteq> 0 \<and> k1 < int (N_KEYS_EXTENDED cfg) then Some k1
         else
           let r2 = sscanf_hash_x keyname;
               k2 = (case r2 of Conv k r \<Rightarrow> k | MatchFail \<Rightarrow> k1 | InputFail \<Rightarrow> k1)
           in if scan_ret r2 \<noteq> 0 \<and> k2 < int (N_KEYS_EXTENDED cfg) then Some k2 else None)"

text \<open>One key name of the list on the left of the colon.\<close>

definition key_cmd ::
  "platform \<Rightarrow> extern \<Rightarrow> cmd \<Rightarrow> nat \<Rightarrow> int \<Rightarrow> string \<Rightarrow> string \<Rightarrow> world \<Rightarrow> world" where
  "key_cmd cfg ext c m n right keyname w =
     (if keyname = ''all'' then cmd_all cfg ext c m n right w
      else
        (case numeric_key cfg keyname of
           Some keycode \<Rightarrow> perform ext (Vt_do_cmd c m n keycode right) w
         | None \<Rightarrow>
             (case find (\<lambda>i. keymap (kb w) i = Some keyname) [0..<N_KEYS_EXTENDED cfg] of
                Some i \<Rightarrow> perform ext (Vt_do_cmd c m n (int i) right) w
              | None \<Rightarrow> w)))"

text \<open>The scan of the key names, from \<open>position\<close> on.\<close>

function key_list ::
  "platform \<Rightarrow> extern \<Rightarrow> cmd \<Rightarrow> nat \<Rightarrow> int \<Rightarrow> string \<Rightarrow> nat \<Rightarrow> string \<Rightarrow> nat \<Rightarrow> world \<Rightarrow> world"
  where
  "key_list cfg ext c m n right left word position w =
     (if position < left then
        (case scan_keyname (drop position word) of
           None \<Rightarrow> w
         | Some (keyname, field) \<Rightarrow>
             key_list cfg ext c m n right left word
               (if position + field < length word \<and> word ! (position + field) = CHR '',''
                then position + field + 1 else position + field)
               (key_cmd cfg ext c m n right keyname w))
      else w)"
  by pat_completeness auto
termination
  by (relation "measure (\<lambda>(cfg, ext, c, m, n, right, left, word, position, w). left - position)")
     (auto simp: scan_keyname_def Let_def neq_Nil_conv split: if_splits)

declare key_list.simps [simp del]

text \<open>The parameter split at the colon.\<close>

definition colon_split :: "platform \<Rightarrow> extern \<Rightarrow> string \<Rightarrow> vars \<Rightarrow> world \<Rightarrow> world" where
  "colon_split cfg ext word v w =
     (let left = colon_left word in
      if left \<le> 0 then w
      else
        let right0 = drop (nat left) word;
            right = (if right0 \<noteq> [] \<and> hd right0 = CHR '':'' then tl right0 else right0)
        in if command v = MACRO \<or> command v = DPI
           then perform ext
                  (Vt_do_macro (command v) (mode v) (notifynumber v) (take (nat left) word) right) w
           else key_list cfg ext (command v) (mode v) (notifynumber v) right (nat left) word 0 w)"

text \<open>
  The second \<open>switch\<close> and what follows it. \<open>Inl\<close> is the \<open>return 1\<close>, \<open>Inr\<close> the end of
  the loop body.
\<close>

definition whole_word :: "extern \<Rightarrow> string \<Rightarrow> vars \<Rightarrow> world \<Rightarrow> (world + vars \<times> world) option" where
  "whole_word ext word v w =
     Some (Inr (v, perform ext (Vt_do_cmd (command v) (mode v) (notifynumber v) 0 word) w))"

definition active_cmd ::
  "platform \<Rightarrow> extern \<Rightarrow> string \<Rightarrow> vars \<Rightarrow> world \<Rightarrow> (world + vars \<times> world) option" where
  "active_cmd cfg ext word v w =
     (case command v of
        IDLE \<Rightarrow> and_then (try_with_reset ext (Vt_idle (mode v) (notifynumber v)) w)
                  (\<lambda>w1. Some (Inr (v, w1)))
      | SWITCH \<Rightarrow>
          Some (Inr (v, if currentmode (profile (kb w)) \<noteq> mode v
                        then switch_mode ext (mode v) w else w))
      | HWLOAD \<Rightarrow> hw_io ext v w
      | HWSAVE \<Rightarrow> hw_io ext v w
      | FWUPDATE \<Rightarrow>
          (case invoke ext (Vt_fwupdate (mode v) (notifynumber v) word) w of
             (r, w1) \<Rightarrow> if r \<noteq> 0 then Some (Inl w1) else Some (Inr (v, w1)))
      | POLLRATE \<Rightarrow> set_pollrate ext word v w
      | ERASEPROFILE \<Rightarrow>
          (let w1 = perform ext (Vt_eraseprofile (mode v) (notifynumber v)) w
           in Some (Inr (v\<lparr>mode := currentmode (profile (kb w1))\<rparr>, w1)))
      | ERASE \<Rightarrow> whole_word ext word v w
      | NAME \<Rightarrow> whole_word ext word v w
      | IOFF \<Rightarrow> whole_word ext word v w
      | ION \<Rightarrow> whole_word ext word v w
      | IAUTO \<Rightarrow> whole_word ext word v w
      | INOTIFY \<Rightarrow> whole_word ext word v w
      | PROFILENAME \<Rightarrow> whole_word ext word v w
      | ID \<Rightarrow> whole_word ext word v w
      | PROFILEID \<Rightarrow> whole_word ext word v w
      | DPISEL \<Rightarrow> whole_word ext word v w
      | LIFT \<Rightarrow> whole_word ext word v w
      | SNAP \<Rightarrow> whole_word ext word v w
      | RGB \<Rightarrow>
          (if sscanf_rgb word = 3 then Some (Inr (v, rgb_all cfg ext (mode v) word w))
           else Some (Inr (v, colon_split cfg ext word v w)))
      | MACRO \<Rightarrow>
          (if word = ''clear''
           then Some (Inr (v, perform ext (Vt_macro (mode v) (notifynumber v)) w))
           else Some (Inr (v, colon_split cfg ext word v w)))
      | _ \<Rightarrow> Some (Inr (v, colon_split cfg ext word v w)))"

text \<open>The body of the loop over the words.\<close>

definition readcmd_word ::
  "platform \<Rightarrow> extern \<Rightarrow> string \<Rightarrow> vars \<Rightarrow> world \<Rightarrow> (world + vars \<times> world) option" where
  "readcmd_word cfg ext word v0 w =
     (case match_verb cfg word (command v0) of
        (c, next_loop) \<Rightarrow>
          (let v = v0\<lparr>command := c\<rparr> in
           if next_loop then Some (Inr (v, w))
           else
             (case select_channel cfg word of
                Some newnotify \<Rightarrow> Some (Inr (v\<lparr>notifynumber := newnotify\<rparr>, w))
              | None \<Rightarrow>
                  if rejected (kb w) c then Some (Inr (v, w))
                  else if fw_gate (kb w) c then Some (Inr (v, w))
                  else
                    (case always_cmd cfg ext word v w of
                       Some r \<Rightarrow> Some (Inr r)
                     | None \<Rightarrow>
                         if \<not> active (kb w) then
                           (if c = ACTIVE
                            then and_then
                                   (try_with_reset ext (Vt_active (mode v) (notifynumber v)) w)
                                   (\<lambda>w1. Some (Inr (v, w1)))
                            else Some (Inr (v, w)))
                         else active_cmd cfg ext word v w))))"

text \<open>The loop over the words, and \<open>readcmd\<close>.\<close>

fun readcmd_words ::
  "platform \<Rightarrow> extern \<Rightarrow> string list \<Rightarrow> vars \<Rightarrow> world \<Rightarrow> (world + vars \<times> world) option" where
  "readcmd_words cfg ext [] v w = Some (Inr (v, w))"
| "readcmd_words cfg ext (word # rest) v w =
     (case readcmd_word cfg ext word v w of
        None \<Rightarrow> None
      | Some (Inl w1) \<Rightarrow> Some (Inl w1)
      | Some (Inr (v1, w1)) \<Rightarrow> readcmd_words cfg ext rest v1 w1)"

definition readcmd ::
  "platform \<Rightarrow> extern \<Rightarrow> timespec \<Rightarrow> string \<Rightarrow> world \<Rightarrow> (int \<times> world) option" where
  "readcmd cfg ext now line w =
     (case readcmd_words cfg ext (strtok_words line)
             \<lparr>command = NONE, notifynumber = 0, mode = currentmode (profile (kb w))\<rparr> w of
        None \<Rightarrow> None
      | Some (Inl w1) \<Rightarrow> Some (1, w1)
      | Some (Inr (v, w1)) \<Rightarrow> readcmd_finish cfg ext now (command v) w1)"

subsection \<open>Reading a result, and an example device\<close>

text \<open>The state a harness ends in, whichever way it ends.\<close>

definition outcome :: "world + world \<Rightarrow> world" where
  "outcome r = (case r of Inl w \<Rightarrow> w | Inr w \<Rightarrow> w)"

text \<open>The calls of a log, without the devices and the return codes.\<close>

definition called :: "world \<Rightarrow> call list" where
  "called w = map fst (calls w)"

text \<open>
  A small platform (three key indices, ten channels, six modes, a release build for Linux),
  an active keyboard with sound firmware, and operations that all succeed and leave the device
  as it is.
\<close>

definition demo_platform :: platform where
  "demo_platform =
     \<lparr>N_KEYS_EXTENDED = 3, OUTFIFO_MAX = 10, MODE_COUNT = 6,
      SCROLL_MIN = 1, SCROLL_MAX = 10, SCROLL_ACCELERATED = 0,
      OS_MAC = False, OS_MAC_LEGACY = False, NDEBUG = True, indeterminate = 0\<rparr>"

definition demo_device :: usbdevice where
  "demo_device =
     \<lparr>active = True, needs_fw_update = False,
      features = {FEAT_BIND, FEAT_NOTIFY, FEAT_ADJRATE, FEAT_ANSI},
      usbdelay = 5, dither = 0, scroll_rate = 0, maxpollrate = POLLRATE_1MS,
      is_mouse_dev = False, is_fullrange = False,
      keymap = (\<lambda>i. None),
      last_rgb = \<lparr>tv_sec = 0, tv_nsec = 0\<rparr>,
      encounteredleds = {},
      profile = \<lparr>modes = (\<lambda>i. \<lparr>light_forceupdate = 0, macros_triggered = []\<rparr>),
                 currentmode = 0\<rparr>\<rparr>"

definition demo_world :: world where
  "demo_world = \<lparr>kb = demo_device, calls = []\<rparr>"

definition demo_vars :: vars where
  "demo_vars = \<lparr>command = NONE, notifynumber = 0, mode = 0\<rparr>"

definition ext_ok :: extern where
  "ext_ok c d = (0, d)"

text \<open>The return value and the calls of a run of \<open>readcmd\<close>.\<close>

definition result_calls :: "(int \<times> world) option \<Rightarrow> (int \<times> call list) option" where
  "result_calls r = map_option (\<lambda>(rc, w). (rc, called w)) r"

text \<open>
  The spec's words for the parameter of \<open>RGB\<close> that is broadcast: exactly six lowercase
  hexadecimal digits, \<open>[0-9a-f]{6}\<close>.
\<close>

definition is_lower_hex :: "char \<Rightarrow> bool" where
  "is_lower_hex c = (isdigit c \<or> (97 \<le> (of_char c :: nat) \<and> (of_char c :: nat) \<le> 102))"

definition spec_rgb_hex :: "string \<Rightarrow> bool" where
  "spec_rgb_hex word = (length word = 6 \<and> list_all is_lower_hex word)"

text \<open>The state a loop body ends in, whichever way it ends.\<close>

definition final_world :: "world + vars \<times> world \<Rightarrow> world" where
  "final_world r = (case r of Inl w \<Rightarrow> w | Inr (v, w) \<Rightarrow> w)"

text \<open>
  Operations under which the hardware I/O fails and the reset fails too; everything else
  succeeds. The device is left as it is.
\<close>

definition ext_io_fails :: extern where
  "ext_io_fails c d = (case c of Vt_do_io x m n \<Rightarrow> (1, d) | Usb_tryreset \<Rightarrow> (1, d) | _ \<Rightarrow> (0, d))"

text \<open>The return value and the \<open>usbdelay\<close> left by a run of \<open>readcmd\<close>.\<close>

definition result_usbdelay :: "(int \<times> world) option \<Rightarrow> (int \<times> int) option" where
  "result_usbdelay r = map_option (\<lambda>(rc, w). (rc, usbdelay (kb w))) r"

text \<open>A logged call that was made with \<open>usbdelay\<close> at 10 or more.\<close>

definition raised :: "call \<times> usbdevice \<times> int \<Rightarrow> bool" where
  "raised e = (10 \<le> usbdelay (fst (snd e)))"

subsection \<open>The retry discipline, read off the log\<close>

text \<open>
  The log of a run is read by a small automaton. It is \<open>Ready\<close> between calls. A call
  that the source wraps in \<open>TRY_WITH_RESET\<close> and that fails leaves it in \<open>Failed\<close>, where
  only a reset may follow; a reset that succeeds leaves it in \<open>Reset_ok\<close>, where only the
  same call may follow; a reset that fails, or a firmware update that fails, leaves it in
  \<open>Aborted\<close>, where nothing may follow. Anything else is \<open>Broken\<close>.
\<close>

datatype phase = Ready | Failed call | Reset_ok call | Aborted | Broken

definition is_retried :: "call \<Rightarrow> bool" where
  "is_retried c = (case c of Vt_active m n \<Rightarrow> True | Vt_idle m n \<Rightarrow> True
     | Vt_do_io x m n \<Rightarrow> True | Vt_updatergb f \<Rightarrow> True | Vt_updatedpi f \<Rightarrow> True
     | Vt_pollrate r \<Rightarrow> True | _ \<Rightarrow> False)"

definition is_fwupdate :: "call \<Rightarrow> bool" where
  "is_fwupdate c = (case c of Vt_fwupdate m n p \<Rightarrow> True | _ \<Rightarrow> False)"

definition discipline_step :: "phase \<Rightarrow> call \<times> usbdevice \<times> int \<Rightarrow> phase" where
  "discipline_step p e =
     (case e of (c, d, rc) \<Rightarrow>
        (case p of
           Ready \<Rightarrow>
             (if is_retried c then (if rc = 0 then Ready else Failed c)
              else if c = Usb_tryreset then Broken
              else if is_fwupdate c \<and> rc \<noteq> 0 then Aborted
              else Ready)
         | Failed a \<Rightarrow>
             (if c = Usb_tryreset then (if rc = 0 then Reset_ok a else Aborted) else Broken)
         | Reset_ok a \<Rightarrow> (if c = a then (if rc = 0 then Ready else Failed a) else Broken)
         | Aborted \<Rightarrow> Broken
         | Broken \<Rightarrow> Broken))"

definition phase_of :: "(call \<times> usbdevice \<times> int) list \<Rightarrow> phase" where
  "phase_of t = foldl discipline_step Ready t"

definition ready :: "world \<Rightarrow> bool" where
  "ready w = (phase_of (calls w) = Ready)"

definition plain :: "call \<Rightarrow> bool" where
  "plain c = (\<not> is_retried c \<and> c \<noteq> Usb_tryreset \<and> \<not> is_fwupdate c)"

text \<open>
  A loop body has kept the discipline: the log is \<open>Aborted\<close> when it returned 1 and
  \<open>Ready\<close> when it went on.
\<close>

definition settled :: "world + vars \<times> world \<Rightarrow> bool" where
  "settled r = (case r of Inl w \<Rightarrow> phase_of (calls w) = Aborted | Inr (v, w) \<Rightarrow> ready w)"

text \<open>The return value of a run with its log (calls and return codes), and with its phase.\<close>

definition result_log :: "(int \<times> world) option \<Rightarrow> (int \<times> (call \<times> int) list) option" where
  "result_log r = map_option (\<lambda>(rc, w). (rc, map (\<lambda>e. (fst e, snd (snd e))) (calls w))) r"

definition result_phase :: "(int \<times> world) option \<Rightarrow> (int \<times> phase) option" where
  "result_phase r = map_option (\<lambda>(rc, w). (rc, phase_of (calls w))) r"

text \<open>
  Operations under which \<open>idle\<close> fails until the device has been reset once (the reset is
  remembered in \<open>scroll_rate\<close>, which nothing else uses here), and operations under which
  the firmware update fails.
\<close>

definition ext_idle_retry :: extern where
  "ext_idle_retry c d =
     (case c of Vt_idle m n \<Rightarrow> (if scroll_rate d = 0 then 1 else 0, d)
      | Usb_tryreset \<Rightarrow> (0, d\<lparr>scroll_rate := 1\<rparr>)
      | _ \<Rightarrow> (0, d))"

definition ext_fw_fails :: extern where
  "ext_fw_fails c d = (case c of Vt_fwupdate m n p \<Rightarrow> (1, d) | _ \<Rightarrow> (0, d))"

subsection \<open>The last verb of a line, and times\<close>

text \<open>
  The value of \<open>command\<close> after the words of a line: it is set by the words that are verbs
  and by nothing else, so it is a function of the words.
\<close>

fun last_verb :: "platform \<Rightarrow> string list \<Rightarrow> cmd \<Rightarrow> cmd" where
  "last_verb cfg [] c = c"
| "last_verb cfg (word # rest) c = last_verb cfg rest (fst (match_verb cfg word c))"

text \<open>The difference of two times in nanoseconds, as a mathematical integer.\<close>

definition true_diff :: "timespec \<Rightarrow> timespec \<Rightarrow> int" where
  "true_diff a b = (tv_sec a - tv_sec b) * 1000000000 + (tv_nsec a - tv_nsec b)"

text \<open>What a run leaves in \<open>last_rgb\<close>, and the facts of the state after the word loop.\<close>

definition result_last_rgb :: "(int \<times> world) option \<Rightarrow> (int \<times> int \<times> int) option" where
  "result_last_rgb r =
     map_option (\<lambda>(rc, w). (rc, tv_sec (last_rgb (kb w)), tv_nsec (last_rgb (kb w)))) r"

definition loop_facts ::
  "(world + vars \<times> world) option \<Rightarrow> (cmd \<times> bool \<times> bool \<times> int \<times> int) option" where
  "loop_facts r =
     (case r of
        Some (Inr (v, w)) \<Rightarrow>
          Some (command v, active (kb w), needs_fw_update (kb w),
                tv_sec (last_rgb (kb w)), tv_nsec (last_rgb (kb w)))
      | _ \<Rightarrow> None)"

subsection \<open>The inactive device\<close>

text \<open>
  The calls that can be made while the device is inactive: the notification nodes, \<open>get\<close>,
  \<open>reset\<close>, \<open>active\<close> and the reset of its harness. The verbs of the first
  \<open>switch\<close>, in the spec's words the always-available family. A device that is inactive
  with sound firmware.
\<close>

definition inactive_call :: "call \<Rightarrow> bool" where
  "inactive_call x = (case x of Mknotifynode n \<Rightarrow> True | Rmnotifynode n \<Rightarrow> True
     | Vt_get m n k s \<Rightarrow> True | Vt_reset m n k s \<Rightarrow> True | Vt_active m n \<Rightarrow> True
     | Usb_tryreset \<Rightarrow> True | _ \<Rightarrow> False)"

definition always_family :: "cmd \<Rightarrow> bool" where
  "always_family c = (c = NOTIFYON \<or> c = NOTIFYOFF \<or> c = GET \<or> c = LAYOUT \<or> c = ACCEL
     \<or> c = SCROLLSPEED \<or> c = MODE \<or> c = FPS \<or> c = DITHER \<or> c = DELAY \<or> c = RESET)"

definition dormant :: "usbdevice \<Rightarrow> bool" where
  "dormant d = (\<not> active d \<and> \<not> needs_fw_update d)"

text \<open>
  Operations under which \<open>active\<close> makes the device active, and the example device while
  it is inactive.
\<close>

definition ext_activate :: extern where
  "ext_activate c d = (case c of Vt_active m n \<Rightarrow> (0, d\<lparr>active := True\<rparr>) | _ \<Rightarrow> (0, d))"

definition idle_world :: world where
  "idle_world = \<lparr>kb = demo_device\<lparr>active := False\<rparr>, calls = []\<rparr>"

subsection \<open>The device that needs a firmware update\<close>

text \<open>
  The calls that can be made while the device needs a firmware update: the notification nodes,
  \<open>reset\<close> and \<open>fwupdate\<close>. \<open>replay\<close> is the device after the calls of a log, made one
  after the other: the state that these calls, and nothing else, lead to.
\<close>

definition bricked_call :: "call \<Rightarrow> bool" where
  "bricked_call x = (case x of Mknotifynode n \<Rightarrow> True | Rmnotifynode n \<Rightarrow> True
     | Vt_reset m n k s \<Rightarrow> True | Vt_fwupdate m n p \<Rightarrow> True | _ \<Rightarrow> False)"

definition replay :: "extern \<Rightarrow> usbdevice \<Rightarrow> (call \<times> usbdevice \<times> int) list \<Rightarrow> usbdevice" where
  "replay ext d t = foldl (\<lambda>d' e. snd (ext (fst e) d')) d t"

text \<open>
  Operations under which a firmware update succeeds and clears the flag; the example device
  with the flag set, without and with a key marked in the debugging scratch array; the
  example platform as a debug build; and what a run leaves of the mark and of the flag.
\<close>

definition ext_fw_repairs :: extern where
  "ext_fw_repairs c d =
     (case c of Vt_fwupdate m n p \<Rightarrow> (0, d\<lparr>needs_fw_update := False\<rparr>) | _ \<Rightarrow> (0, d))"

definition bricked_world :: world where
  "bricked_world = \<lparr>kb = demo_device\<lparr>needs_fw_update := True\<rparr>, calls = []\<rparr>"

definition marked_world :: world where
  "marked_world =
     \<lparr>kb = demo_device\<lparr>needs_fw_update := True, encounteredleds := {1}\<rparr>, calls = []\<rparr>"

definition debug_platform :: platform where
  "debug_platform = demo_platform\<lparr>NDEBUG := False\<rparr>"

definition result_led :: "nat \<Rightarrow> (int \<times> world) option \<Rightarrow> (int \<times> bool) option" where
  "result_led k r = map_option (\<lambda>(rc, w). (rc, k \<in> encounteredleds (kb w))) r"

definition result_bricked :: "(int \<times> world) option \<Rightarrow> (int \<times> bool) option" where
  "result_bricked r = map_option (\<lambda>(rc, w). (rc, needs_fw_update (kb w))) r"

text \<open>
  The flag where \<open>readcmd\<close> reads it on a line: before each word, and after the last word
  when the loop has not returned before. \<open>flag_stays\<close> says that it is set at each of these
  points of the run.
\<close>

fun flag_stays :: "platform \<Rightarrow> extern \<Rightarrow> string list \<Rightarrow> vars \<Rightarrow> world \<Rightarrow> bool" where
  "flag_stays cfg ext [] v w = needs_fw_update (kb w)"
| "flag_stays cfg ext (word # rest) v w =
     (needs_fw_update (kb w) \<and>
      (case readcmd_word cfg ext word v w of
         Some (Inr (v1, w1)) \<Rightarrow> flag_stays cfg ext rest v1 w1
       | _ \<Rightarrow> True))"

section \<open>Properties\<close>

subsection \<open>Calls and the retry harness\<close>

lemma invoke_fst [simp]: "fst (invoke ext c w) = fst (ext c (kb w))"
  by (simp add: invoke_def split: prod.splits)

lemma invoke_kb [simp]: "kb (snd (invoke ext c w)) = snd (ext c (kb w))"
  by (simp add: invoke_def split: prod.splits)

lemma invoke_calls [simp]:
  "calls (snd (invoke ext c w)) = calls w @ [(c, kb w, fst (ext c (kb w)))]"
  by (simp add: invoke_def split: prod.splits)

lemma perform_kb [simp]: "kb (perform ext c w) = snd (ext c (kb w))"
  by (simp add: perform_def)

lemma perform_calls [simp]:
  "calls (perform ext c w) = calls w @ [(c, kb w, fst (ext c (kb w)))]"
  by (simp add: perform_def)

lemma note_call_kb [simp]: "kb (note_call c w) = kb w"
  by (simp add: note_call_def)

lemma note_call_calls [simp]: "calls (note_call c w) = calls w @ [(c, kb w, 0)]"
  by (simp add: note_call_def)

text \<open>One turn of the harness, by the two return codes.\<close>

lemma try_with_reset_unfold:
  "try_with_reset ext a w =
     (if fst (ext a (kb w)) = 0 then Some (Inr (snd (invoke ext a w)))
      else if fst (ext Usb_tryreset (snd (ext a (kb w)))) \<noteq> 0
      then Some (Inl (snd (invoke ext Usb_tryreset (snd (invoke ext a w)))))
      else try_with_reset ext a (snd (invoke ext Usb_tryreset (snd (invoke ext a w)))))"
  by (subst try_with_reset.simps) (simp add: case_prod_beta)

lemma try_ok:
  "fst (ext a (kb w)) = 0 \<Longrightarrow> try_with_reset ext a w = Some (Inr (snd (invoke ext a w)))"
  by (subst try_with_reset_unfold) simp

lemma try_abort:
  "fst (ext a (kb w)) \<noteq> 0 \<Longrightarrow> fst (ext Usb_tryreset (snd (ext a (kb w)))) \<noteq> 0 \<Longrightarrow>
   try_with_reset ext a w = Some (Inl (snd (invoke ext Usb_tryreset (snd (invoke ext a w)))))"
  by (subst try_with_reset_unfold) simp

lemma try_retry:
  "fst (ext a (kb w)) \<noteq> 0 \<Longrightarrow> fst (ext Usb_tryreset (snd (ext a (kb w)))) = 0 \<Longrightarrow>
   try_with_reset ext a w =
     try_with_reset ext a (snd (invoke ext Usb_tryreset (snd (invoke ext a w))))"
  by (subst try_with_reset_unfold) simp

text \<open>
  Whatever the action and the reset keep true of the state is true when the harness ends,
  on either exit.
\<close>

lemma try_with_reset_inv:
  assumes "try_with_reset ext a w = Some r"
    and "\<And>w. Q w \<Longrightarrow> Q (snd (invoke ext a w))"
    and "\<And>w. Q w \<Longrightarrow> Q (snd (invoke ext Usb_tryreset w))"
    and "Q w"
  shows "Q (outcome r)"
  using assms
proof (induction ext a w r rule: try_with_reset.raw_induct[rotated 1, consumes 1])
  case (1 twr ext a w r)
  define w1 where "w1 = snd (invoke ext a w)"
  define w2 where "w2 = snd (invoke ext Usb_tryreset w1)"
  define r1 where "r1 = fst (invoke ext a w)"
  define r2 where "r2 = fst (invoke ext Usb_tryreset w1)"
  have Q1: "Q w1" unfolding w1_def by (rule 1(3)[OF 1(5)])
  have Q2: "Q w2" unfolding w2_def by (rule 1(4)[OF Q1])
  have body: "(if r1 = 0 then Some (Inr w1)
               else if r2 \<noteq> 0 then Some (Inl w2) else twr ext a w2) = Some r"
    using 1(2) unfolding case_prod_beta w1_def w2_def r1_def r2_def .
  show ?case
  proof (cases "r1 = 0")
    case True
    with body have "r = Inr w1" by simp
    then show ?thesis using Q1 by (simp add: outcome_def)
  next
    case False
    show ?thesis
    proof (cases "r2 = 0")
      case True
      with False body have "twr ext a w2 = Some r" by simp
      from 1(1)[OF this 1(3) 1(4) Q2] show ?thesis .
    next
      case F2: False
      with False body have "r = Inl w2" by simp
      then show ?thesis using Q2 by (simp add: outcome_def)
    qed
  qed
qed

subsection \<open>Verbs and channel selectors\<close>

lemma verb_first_char:
  "map_of cmd_strings word = Some c \<Longrightarrow> word \<noteq> [] \<and> 97 \<le> (of_char (hd word) :: nat)"
  by (auto simp: cmd_strings_def split: if_splits)

lemma at_first_char:
  "sscanf_at_d word = Conv n r \<Longrightarrow> word \<noteq> [] \<and> hd word = CHR ''@''"
  by (auto simp: sscanf_at_d_def scan_lit_def split: list.splits if_splits scan.splits)

lemma selector_not_verb:
  assumes "select_channel cfg word = Some n"
  shows "map_of cmd_strings word = None"
proof (cases "map_of cmd_strings word")
  case None
  then show ?thesis by simp
next
  case (Some c)
  from assms obtain r where "sscanf_at_d word = Conv n r"
    by (auto simp: select_channel_def split: scan.splits if_splits)
  from at_first_char[OF this] verb_first_char[OF Some] show ?thesis by auto
qed

lemma match_verb_none:
  "map_of cmd_strings word = None \<Longrightarrow> match_verb cfg word c = (c, False)"
  by (simp add: match_verb_def)

lemma selector_word:
  assumes "select_channel cfg word = Some n"
  shows "readcmd_word cfg ext word v w = Some (Inr (v\<lparr>notifynumber := n\<rparr>, w))"
  using assms selector_not_verb[OF assms]
  by (simp add: readcmd_word_def match_verb_none)

subsection \<open>Decimal words and \<open>FPS\<close>\<close>













subsection \<open>Hexadecimal words and \<open>RGB\<close>\<close>

lemma isxdigit_plain:
  "isxdigit c \<Longrightarrow> \<not> isspace c \<and> c \<noteq> CHR ''-'' \<and> c \<noteq> CHR ''+'' \<and> c \<noteq> CHR ''x'' \<and> c \<noteq> CHR ''X''"
  by (auto simp: isxdigit_def isdigit_def isspace_def)

lemma scan_hex2:
  assumes "isxdigit a" and "isxdigit b"
  shows "scan_num 16 (Some 2) (a # b # rest) = Conv (number_of 16 [a, b]) rest"
  using isxdigit_plain[OF assms(1)] isxdigit_plain[OF assms(2)] assms
  by (simp add: scan_num_def is_digit_of_def[abs_def] Let_def)

lemma scan_hex1:
  assumes "isxdigit a"
  shows "scan_num 16 (Some 2) [a] = Conv (number_of 16 [a]) []"
  using isxdigit_plain[OF assms] assms
  by (simp add: scan_num_def is_digit_of_def[abs_def] Let_def)

lemma scan_hex0: "scan_num 16 (Some 2) [] = InputFail"
  by (simp add: scan_num_def)

lemma sscanf_rgb_hex5:
  assumes "isxdigit a" "isxdigit b" "isxdigit c" "isxdigit d" "isxdigit e"
    and "rest \<noteq> [] \<longrightarrow> isxdigit (hd rest)"
  shows "sscanf_rgb (a # b # c # d # e # rest) = 3"
proof (cases rest)
  case Nil
  then show ?thesis using assms by (simp add: sscanf_rgb_def scan_hex2 scan_hex1)
next
  case (Cons f rest')
  then show ?thesis using assms by (simp add: sscanf_rgb_def scan_hex2)
qed

lemma sscanf_rgb_hex_word:
  assumes "list_all isxdigit word"
  shows "(sscanf_rgb word = 3) = (5 \<le> length word)"
proof (cases "5 \<le> length word")
  case True
  then obtain a b c d e rest where w: "word = a # b # c # d # e # rest"
    by (cases word; simp; rename_tac t, case_tac t; simp; rename_tac t, case_tac t; simp;
        rename_tac t, case_tac t; simp; rename_tac t, case_tac t; simp)
  with assms have "sscanf_rgb word = 3"
    by (cases rest) (simp_all add: sscanf_rgb_hex5)
  with True show ?thesis by simp
next
  case False
  then consider "word = []" | a where "word = [a]" | a b where "word = [a, b]"
    | a b c where "word = [a, b, c]" | a b c d where "word = [a, b, c, d]"
    by (cases word; simp; rename_tac t, case_tac t; simp; rename_tac t, case_tac t; simp;
        rename_tac t, case_tac t; simp; rename_tac t, case_tac t; simp)
  then have "sscanf_rgb word \<noteq> 3"
    using assms
    by cases (simp_all add: sscanf_rgb_def scan_hex0 scan_hex1 scan_hex2 EOF_def)
  with False show ?thesis by simp
qed

lemma sscanf_rgb_hex_prefix:
  assumes "list_all isxdigit (take 6 word)" and "6 \<le> length word"
  shows "sscanf_rgb word = 3"
proof -
  from assms(2) obtain a b c d e f rest where w: "word = a # b # c # d # e # f # rest"
    by (cases word; simp; rename_tac t, case_tac t; simp; rename_tac t, case_tac t; simp;
        rename_tac t, case_tac t; simp; rename_tac t, case_tac t; simp; rename_tac t, case_tac t; simp)
  with assms(1) show ?thesis by (simp add: sscanf_rgb_hex5)
qed

lemma foldl_perform_calls:
  "called (foldl (\<lambda>w' i. perform ext (f i) w') w [0..<n]) = called w @ map f [0..<n]"
  by (induction n) (simp_all add: called_def)

lemma command_update_same: "command v = c \<Longrightarrow> v\<lparr>command := c\<rparr> = v"
  by (cases v) simp

lemma rgb_word:
  assumes "command v = RGB" and "map_of cmd_strings word = None"
    and "select_channel cfg word = None" and "active (kb w)" and "\<not> needs_fw_update (kb w)"
  shows "readcmd_word cfg ext word v w =
           Some (Inr (v, if sscanf_rgb word = 3 then rgb_all cfg ext (mode v) word w
                         else colon_split cfg ext word v w))"
  using assms
  by (simp add: readcmd_word_def match_verb_none rejected_def fw_gate_def always_cmd_def
      active_cmd_def command_update_same)

subsection \<open>The log of a harness, and \<open>HWLOAD\<close> and \<open>HWSAVE\<close>\<close>

lemma try_calls_grow:
  assumes "try_with_reset ext a w = Some r"
  shows "\<exists>t. calls (outcome r) = calls w @ t"
  by (rule try_with_reset_inv[OF assms, where Q = "\<lambda>w'. \<exists>t. calls w' = calls w @ t"]) auto

lemma try_first_call:
  assumes "try_with_reset ext a w = Some r"
  shows "\<exists>t. calls (outcome r) = calls w @ (a, kb w, fst (ext a (kb w))) # t"
proof -
  let ?w1 = "snd (invoke ext a w)"
  let ?w2 = "snd (invoke ext Usb_tryreset ?w1)"
  consider (ok) "fst (ext a (kb w)) = 0"
    | (abort) "fst (ext a (kb w)) \<noteq> 0" "fst (ext Usb_tryreset (snd (ext a (kb w)))) \<noteq> 0"
    | (retry) "fst (ext a (kb w)) \<noteq> 0" "fst (ext Usb_tryreset (snd (ext a (kb w)))) = 0"
    by blast
  then show ?thesis
  proof cases
    case ok
    with assms have "r = Inr ?w1" by (simp add: try_ok)
    then show ?thesis using ok by (simp add: outcome_def)
  next
    case abort
    with assms have "r = Inl ?w2" by (simp add: try_abort)
    then show ?thesis using abort by (simp add: outcome_def)
  next
    case retry
    with assms have "try_with_reset ext a ?w2 = Some r" by (simp add: try_retry)
    from try_calls_grow[OF this] show ?thesis by auto
  qed
qed

lemma hw_io_cases:
  assumes "hw_io ext v w = Some r"
  obtains (abort1) wa where
      "try_with_reset ext (Vt_do_io (command v) (mode v) (notifynumber v))
         (if usbdelay (kb w) < 10 then w\<lparr>kb := (kb w)\<lparr>usbdelay := 10\<rparr>\<rparr> else w) = Some (Inl wa)"
      "r = Inl wa"
  | (abort2) w2 wb where
      "try_with_reset ext (Vt_do_io (command v) (mode v) (notifynumber v))
         (if usbdelay (kb w) < 10 then w\<lparr>kb := (kb w)\<lparr>usbdelay := 10\<rparr>\<rparr> else w) = Some (Inr w2)"
      "try_with_reset ext (Vt_updatergb 1) w2 = Some (Inl wb)"
      "r = Inl wb"
  | (finished) w2 w3 where
      "try_with_reset ext (Vt_do_io (command v) (mode v) (notifynumber v))
         (if usbdelay (kb w) < 10 then w\<lparr>kb := (kb w)\<lparr>usbdelay := 10\<rparr>\<rparr> else w) = Some (Inr w2)"
      "try_with_reset ext (Vt_updatergb 1) w2 = Some (Inr w3)"
      "r = Inr (v, w3\<lparr>kb := (kb w3)\<lparr>usbdelay := usbdelay (kb w)\<rparr>\<rparr>)"
proof -
  define w1 where "w1 = (if usbdelay (kb w) < 10 then w\<lparr>kb := (kb w)\<lparr>usbdelay := 10\<rparr>\<rparr> else w)"
  define A where "A = Vt_do_io (command v) (mode v) (notifynumber v)"
  have eq: "hw_io ext v w = and_then (try_with_reset ext A w1)
           (\<lambda>w2. and_then (try_with_reset ext (Vt_updatergb 1) w2)
              (\<lambda>w3. Some (Inr (v, w3\<lparr>kb := (kb w3)\<lparr>usbdelay := usbdelay (kb w)\<rparr>\<rparr>))))"
    by (simp add: hw_io_def Let_def w1_def A_def)
  show thesis
  proof (cases "try_with_reset ext A w1")
    case None
    with assms eq show thesis by (simp add: and_then_def)
  next
    case (Some r1)
    show thesis
    proof (cases r1)
      case (Inl wa)
      with Some assms eq have "r = Inl wa" by (simp add: and_then_def)
      with Some Inl show thesis using abort1 unfolding w1_def A_def by blast
    next
      case (Inr w2)
      show thesis
      proof (cases "try_with_reset ext (Vt_updatergb 1) w2")
        case None
        with Some Inr assms eq show thesis by (simp add: and_then_def)
      next
        case S2: (Some r2)
        show thesis
        proof (cases r2)
          case I2: (Inl wb)
          with S2 Some Inr assms eq have "r = Inl wb" by (simp add: and_then_def)
          with S2 I2 Some Inr show thesis using abort2 unfolding w1_def A_def by blast
        next
          case I3: (Inr w3)
          with S2 Some Inr assms eq
          have "r = Inr (v, w3\<lparr>kb := (kb w3)\<lparr>usbdelay := usbdelay (kb w)\<rparr>\<rparr>)"
            by (simp add: and_then_def)
          with S2 I3 Some Inr show thesis using finished unfolding w1_def A_def by blast
        qed
      qed
    qed
  qed
qed

lemma hwload_word:
  assumes "word = ''hwload'' \<or> word = ''hwsave''"
    and "active (kb w)" and "\<not> needs_fw_update (kb w)"
  shows "readcmd_word cfg ext word v w
           = hw_io ext (v\<lparr>command := (if word = ''hwload'' then HWLOAD else HWSAVE)\<rparr>) w"
proof (cases "word = ''hwload''")
  case True
  have m: "match_verb cfg ''hwload'' (command v) = (HWLOAD, False)"
    by (simp add: match_verb_def cmd_strings_def is_action_def)
  have s: "select_channel cfg ''hwload'' = None"
    by (simp add: select_channel_def sscanf_at_d_def scan_lit_def)
  from True assms(2,3) show ?thesis
    by (simp add: readcmd_word_def m s rejected_def fw_gate_def always_cmd_def active_cmd_def)
next
  case False
  with assms(1) have w: "word = ''hwsave''" by simp
  have m: "match_verb cfg ''hwsave'' (command v) = (HWSAVE, False)"
    by (simp add: match_verb_def cmd_strings_def is_action_def)
  have s: "select_channel cfg ''hwsave'' = None"
    by (simp add: select_channel_def sscanf_at_d_def scan_lit_def)
  from w assms(2,3) show ?thesis
    by (simp add: readcmd_word_def m s rejected_def fw_gate_def always_cmd_def active_cmd_def)
qed


lemma hw_io_raised:
  assumes run: "hw_io ext v w = Some r"
    and frame: "\<And>c d. usbdelay (snd (ext c d)) = usbdelay d"
  shows "(\<exists>t. calls (final_world r) = calls w @ t \<and> list_all raised t)
         \<and> (\<forall>w'. r = Inl w' \<longrightarrow> usbdelay (kb w') = max 10 (usbdelay (kb w)))"
proof -
  define Q where "Q = (\<lambda>w' :: world. usbdelay (kb w') = max 10 (usbdelay (kb w))
                        \<and> (\<exists>t. calls w' = calls w @ t \<and> list_all raised t))"
  define w1 where "w1 = (if usbdelay (kb w) < 10 then w\<lparr>kb := (kb w)\<lparr>usbdelay := 10\<rparr>\<rparr> else w)"
  have Q1: "Q w1" by (simp add: Q_def w1_def)
  have step: "Q (snd (invoke ext c x))" if "Q x" for c x
    using that frame by (auto simp: Q_def raised_def)
  have keep: "Q (outcome r')" if "try_with_reset ext a x = Some r'" "Q x" for a x r'
    by (rule try_with_reset_inv[OF that(1), where Q = Q]) (auto intro: step that(2))
  from run show ?thesis
  proof (cases rule: hw_io_cases)
    case (abort1 wa)
    from keep[OF abort1(1)[folded w1_def] Q1] abort1(2) show ?thesis
      by (auto simp: Q_def outcome_def final_world_def)
  next
    case (abort2 w2 wb)
    from keep[OF abort2(1)[folded w1_def] Q1] have "Q w2" by (simp add: outcome_def)
    from keep[OF abort2(2) this] abort2(3) show ?thesis
      by (auto simp: Q_def outcome_def final_world_def)
  next
    case (finished w2 w3)
    from keep[OF finished(1)[folded w1_def] Q1] have "Q w2" by (simp add: outcome_def)
    from keep[OF finished(2) this] finished(3) show ?thesis
      by (auto simp: Q_def outcome_def final_world_def)
  qed
qed

lemma hw_io_first_call:
  assumes run: "hw_io ext v w = Some r"
  shows "\<exists>rc t. calls (final_world r)
           = calls w @ (Vt_do_io (command v) (mode v) (notifynumber v),
                        (kb w)\<lparr>usbdelay := max 10 (usbdelay (kb w))\<rparr>, rc) # t"
proof -
  define w1 where "w1 = (if usbdelay (kb w) < 10 then w\<lparr>kb := (kb w)\<lparr>usbdelay := 10\<rparr>\<rparr> else w)"
  have k1: "kb w1 = (kb w)\<lparr>usbdelay := max 10 (usbdelay (kb w))\<rparr>" and c1: "calls w1 = calls w"
    by (simp_all add: w1_def max_def)
  from run show ?thesis
  proof (cases rule: hw_io_cases)
    case (abort1 wa)
    from try_first_call[OF abort1(1)[folded w1_def]] abort1(2) show ?thesis
      by (auto simp: k1 c1 outcome_def final_world_def)
  next
    case (abort2 w2 wb)
    from try_first_call[OF abort2(1)[folded w1_def]] try_calls_grow[OF abort2(2)] abort2(3)
    show ?thesis
      by (auto simp: k1 c1 outcome_def final_world_def)
  next
    case (finished w2 w3)
    from try_first_call[OF finished(1)[folded w1_def]] try_calls_grow[OF finished(2)] finished(3)
    show ?thesis
      by (auto simp: k1 c1 outcome_def final_world_def)
  qed
qed

lemma hw_io_restored:
  assumes "hw_io ext v w = Some (Inr (v', w'))"
  shows "usbdelay (kb w') = usbdelay (kb w) \<and> v' = v"
  using assms by (cases rule: hw_io_cases) auto

subsection \<open>The retry discipline\<close>

lemma phase_of_snoc: "phase_of (t @ [e]) = discipline_step (phase_of t) e"
  by (simp add: phase_of_def)

lemma ready_perform: "ready w \<Longrightarrow> plain c \<Longrightarrow> ready (perform ext c w)"
  by (simp add: ready_def phase_of_snoc discipline_step_def plain_def)

lemma ready_note: "ready w \<Longrightarrow> plain c \<Longrightarrow> ready (note_call c w)"
  by (simp add: ready_def phase_of_snoc discipline_step_def plain_def)

lemma ready_kb [simp]: "ready (w\<lparr>kb := d\<rparr>) = ready w"
  by (simp add: ready_def)

lemma ready_foldl:
  assumes "\<And>i. plain (f i)"
  shows "ready w \<Longrightarrow> ready (foldl (\<lambda>w' i. perform ext (f i) w') w xs)"
  by (induction xs arbitrary: w) (simp_all add: ready_perform assms)

lemma plain_simps [simp]:
  "plain (Mknotifynode n)" "plain (Rmnotifynode n)" "plain (Vt_get m n k s)"
  "plain (Vt_reset m n k s)" "plain (Vt_setmodeindex m)" "plain (Vt_eraseprofile m n)"
  "plain (Vt_do_cmd c m n k s)" "plain (Vt_rgb m n k s)" "plain (Vt_macro m n)"
  "plain (Vt_do_macro c m n l s)" "plain Mutex_lock" "plain Mutex_unlock"
  "plain (Ckb_err s)" "plain (Ckb_warn n)" "plain (Clock_nanosleep n)"
  by (simp_all add: plain_def is_retried_def is_fwupdate_def)

lemma retried_simps [simp]:
  "is_retried (Vt_active m n)" "is_retried (Vt_idle m n)" "is_retried (Vt_do_io c m n)"
  "is_retried (Vt_updatergb f)" "is_retried (Vt_updatedpi f)" "is_retried (Vt_pollrate r)"
  "\<not> is_retried Usb_tryreset"
  by (simp_all add: is_retried_def)

lemma ready_key_cmd: "ready w \<Longrightarrow> ready (key_cmd cfg ext c m n right keyname w)"
  by (simp add: key_cmd_def cmd_all_def ready_foldl ready_perform split: option.splits)

lemma ready_key_list: "ready w \<Longrightarrow> ready (key_list cfg ext c m n right left word position w)"
proof (induction cfg ext c m n right left word position w rule: key_list.induct)
  case (1 cfg ext c m n right left word position w)
  show ?case
  proof (cases "position < left")
    case False
    then show ?thesis using 1(2) by (subst key_list.simps) simp
  next
    case True
    show ?thesis
    proof (cases "scan_keyname (drop position word)")
      case None
      with True show ?thesis using 1(2) by (subst key_list.simps) simp
    next
      case (Some kf)
      obtain keyname field where kf: "kf = (keyname, field)" by (cases kf)
      from 1(1)[OF True Some[unfolded kf] refl ready_key_cmd[OF 1(2)]] True Some kf
      show ?thesis by (subst key_list.simps) simp
    qed
  qed
qed

lemma ready_colon_split: "ready w \<Longrightarrow> ready (colon_split cfg ext word v w)"
  by (simp add: colon_split_def Let_def ready_perform ready_key_list)

lemma ready_switch_mode: "ready w \<Longrightarrow> ready (switch_mode ext m w)"
  by (simp add: switch_mode_def Let_def ready_perform ready_note)

lemma ready_rgb_all: "ready w \<Longrightarrow> ready (rgb_all cfg ext m word w)"
  by (simp add: rgb_all_def ready_foldl)

lemma ready_always_cmd:
  "ready w \<Longrightarrow> always_cmd cfg ext word v w = Some (v', w') \<Longrightarrow> ready w'"
  by (cases "command v")
     (auto simp: always_cmd_def ready_perform set_layout_def set_fps_def set_dither_def Let_def
        split: scan.splits if_splits)

lemma harness_phase_aux:
  assumes "try_with_reset ext a w = Some r" and "is_retried a"
    and "phase_of (calls w) = Ready \<or> phase_of (calls w) = Reset_ok a"
  shows "phase_of (calls (outcome r)) = (case r of Inl x \<Rightarrow> Aborted | Inr x \<Rightarrow> Ready)"
  using assms
proof (induction ext a w r rule: try_with_reset.raw_induct[rotated 1, consumes 1])
  case (1 twr ext a w r)
  define w1 where "w1 = snd (invoke ext a w)"
  define w2 where "w2 = snd (invoke ext Usb_tryreset w1)"
  define r1 where "r1 = fst (invoke ext a w)"
  define r2 where "r2 = fst (invoke ext Usb_tryreset w1)"
  have body: "(if r1 = 0 then Some (Inr w1)
               else if r2 \<noteq> 0 then Some (Inl w2) else twr ext a w2) = Some r"
    using 1(2) unfolding case_prod_beta w1_def w2_def r1_def r2_def .
  have p1: "phase_of (calls w1) = (if r1 = 0 then Ready else Failed a)"
    using 1(3,4) by (auto simp: w1_def r1_def phase_of_snoc discipline_step_def)
  show ?case
  proof (cases "r1 = 0")
    case True
    with body have "r = Inr w1" by simp
    then show ?thesis using p1 True by (simp add: outcome_def)
  next
    case False
    have p2: "phase_of (calls w2) = (if r2 = 0 then Reset_ok a else Aborted)"
      using p1 False by (simp add: w2_def r2_def phase_of_snoc discipline_step_def)
    show ?thesis
    proof (cases "r2 = 0")
      case True
      with False body have "twr ext a w2 = Some r" by simp
      from 1(1)[OF this 1(3)] p2 True show ?thesis by simp
    next
      case F2: False
      with False body have "r = Inl w2" by simp
      then show ?thesis using p2 F2 by (simp add: outcome_def)
    qed
  qed
qed

lemma harness_settled:
  assumes "and_then (try_with_reset ext a w) (\<lambda>w1. Some (Inr (v, w1))) = Some r"
    and "is_retried a" and "ready w"
  shows "settled r"
proof (cases "try_with_reset ext a w")
  case None
  with assms(1) show ?thesis by (simp add: and_then_def)
next
  case (Some r1)
  from harness_phase_aux[OF Some assms(2)] assms(3)
  have p: "phase_of (calls (outcome r1)) = (case r1 of Inl x \<Rightarrow> Aborted | Inr x \<Rightarrow> Ready)"
    by (simp add: ready_def)
  show ?thesis
  proof (cases r1)
    case (Inl x)
    with Some assms(1) p show ?thesis by (auto simp: and_then_def settled_def outcome_def)
  next
    case (Inr x)
    with Some assms(1) p show ?thesis
      by (auto simp: and_then_def settled_def outcome_def ready_def)
  qed
qed

lemma hw_io_settled:
  assumes "hw_io ext v w = Some r" and "ready w"
  shows "settled r"
  using assms(1)
proof (cases rule: hw_io_cases)
  case (abort1 wa)
  from harness_phase_aux[OF abort1(1)] assms(2) abort1(2) show ?thesis
    by (auto simp: ready_def settled_def outcome_def split: if_splits)
next
  case (abort2 w2 wb)
  from harness_phase_aux[OF abort2(1)] assms(2) have "phase_of (calls w2) = Ready"
    by (auto simp: ready_def outcome_def split: if_splits)
  with harness_phase_aux[OF abort2(2)] abort2(3) show ?thesis
    by (auto simp: settled_def outcome_def)
next
  case (finished w2 w3)
  from harness_phase_aux[OF finished(1)] assms(2) have "phase_of (calls w2) = Ready"
    by (auto simp: ready_def outcome_def split: if_splits)
  with harness_phase_aux[OF finished(2)] finished(3) show ?thesis
    by (auto simp: settled_def outcome_def ready_def)
qed

lemma set_pollrate_settled:
  assumes "set_pollrate ext word v w = Some r" and "ready w"
  shows "settled r"
proof (cases "FEAT_ADJRATE \<in> features (kb w)")
  case False
  with assms show ?thesis by (auto simp: set_pollrate_def settled_def)
next
  case True
  show ?thesis
  proof (cases "pollrate_of word")
    case None
    with True assms show ?thesis by (auto simp: set_pollrate_def settled_def)
  next
    case (Some rate)
    show ?thesis
    proof (cases "pollrate_rank rate > pollrate_rank (maxpollrate (kb w))")
      case T: True
      with True Some assms show ?thesis
        by (auto simp: set_pollrate_def settled_def ready_note)
    next
      case F: False
      with True Some assms(1)
      have "and_then (try_with_reset ext (Vt_pollrate rate) w) (\<lambda>w1. Some (Inr (v, w1))) = Some r"
        by (simp add: set_pollrate_def)
      from harness_settled[OF this _ assms(2)] show ?thesis by simp
    qed
  qed
qed

lemma fwupdate_settled:
  assumes "(case invoke ext (Vt_fwupdate m n word) w of
             (r, w1) \<Rightarrow> if r \<noteq> 0 then Some (Inl w1) else Some (Inr (v, w1))) = Some res"
    and "ready w"
  shows "settled res"
  using assms
  by (auto simp: case_prod_beta settled_def ready_def phase_of_snoc discipline_step_def
      is_retried_def is_fwupdate_def split: if_splits)

lemma active_cmd_settled:
  assumes "active_cmd cfg ext word v w = Some r" and "ready w"
  shows "settled r"
proof -
  have plain_case: "settled r" if "r = Inr (v', w')" "ready w'" for v' w'
    using that by (simp add: settled_def)
  have cs: "ready (colon_split cfg ext word v w)"
    by (rule ready_colon_split[OF assms(2)])
  have ww: "settled r" if "whole_word ext word v w = Some r"
    using that assms(2) by (auto simp: whole_word_def settled_def ready_perform)
  from assms(1) show ?thesis
  proof (cases "command v")
    case IDLE
    with assms(1) have "and_then (try_with_reset ext (Vt_idle (mode v) (notifynumber v)) w)
                  (\<lambda>w1. Some (Inr (v, w1))) = Some r" by (simp add: active_cmd_def)
    from harness_settled[OF this _ assms(2)] show ?thesis by simp
  next
    case SWITCH
    with assms show ?thesis
      by (auto simp: active_cmd_def settled_def ready_switch_mode)
  next
    case HWLOAD
    with assms(1) have "hw_io ext v w = Some r" by (simp add: active_cmd_def)
    from hw_io_settled[OF this assms(2)] show ?thesis .
  next
    case HWSAVE
    with assms(1) have "hw_io ext v w = Some r" by (simp add: active_cmd_def)
    from hw_io_settled[OF this assms(2)] show ?thesis .
  next
    case FWUPDATE
    with assms(1) have "(case invoke ext (Vt_fwupdate (mode v) (notifynumber v) word) w of
             (r, w1) \<Rightarrow> if r \<noteq> 0 then Some (Inl w1) else Some (Inr (v, w1))) = Some r"
      by (simp add: active_cmd_def)
    from fwupdate_settled[OF this assms(2)] show ?thesis .
  next
    case POLLRATE
    with assms(1) have "set_pollrate ext word v w = Some r" by (simp add: active_cmd_def)
    from set_pollrate_settled[OF this assms(2)] show ?thesis .
  next
    case ERASEPROFILE
    with assms show ?thesis
      by (auto simp: active_cmd_def settled_def Let_def ready_perform)
  next
    case RGB
    with assms cs show ?thesis
      by (auto simp: active_cmd_def settled_def ready_rgb_all split: if_splits)
  next
    case MACRO
    with assms cs show ?thesis
      by (auto simp: active_cmd_def settled_def ready_perform split: if_splits)
  qed (insert assms(1) cs ww, auto simp: active_cmd_def settled_def)
qed

lemma readcmd_word_settled:
  assumes "readcmd_word cfg ext word v w = Some r" and "ready w"
  shows "settled r"
proof -
  obtain c nl where m: "match_verb cfg word (command v) = (c, nl)"
    by (cases "match_verb cfg word (command v)")
  define v1 where "v1 = v\<lparr>command := c\<rparr>"
  show ?thesis
  proof (cases "nl \<or> select_channel cfg word \<noteq> None \<or> rejected (kb w) c \<or> fw_gate (kb w) c")
    case True
    with assms m show ?thesis
      by (auto simp: readcmd_word_def settled_def Let_def split: option.splits if_splits)
  next
    case False
    then have f: "\<not> nl" "select_channel cfg word = None" "\<not> rejected (kb w) c"
        "\<not> fw_gate (kb w) c" by auto
    show ?thesis
    proof (cases "always_cmd cfg ext word v1 w")
      case (Some vw)
      obtain v' w' where vw: "vw = (v', w')" by (cases vw)
      from ready_always_cmd[OF assms(2) Some[unfolded vw]] assms(1) m f Some vw
      show ?thesis by (auto simp: readcmd_word_def settled_def v1_def)
    next
      case None
      show ?thesis
      proof (cases "active (kb w)")
        case True
        with assms(1) m f None have "active_cmd cfg ext word v1 w = Some r"
          by (simp add: readcmd_word_def v1_def)
        from active_cmd_settled[OF this assms(2)] show ?thesis .
      next
        case False
        show ?thesis
        proof (cases "c = ACTIVE")
          case True
          with False assms(1) m f None
          have "and_then (try_with_reset ext (Vt_active (mode v1) (notifynumber v1)) w)
                  (\<lambda>w1. Some (Inr (v1, w1))) = Some r"
            by (simp add: readcmd_word_def v1_def)
          from harness_settled[OF this _ assms(2)] show ?thesis by simp
        next
          case F: False
          with False assms m f None show ?thesis
            by (auto simp: readcmd_word_def v1_def settled_def)
        qed
      qed
    qed
  qed
qed

lemma readcmd_words_settled:
  "readcmd_words cfg ext ws v w = Some r \<Longrightarrow> ready w \<Longrightarrow> settled r"
proof (induction ws arbitrary: v w)
  case Nil
  then show ?case by (auto simp: settled_def)
next
  case (Cons word rest)
  show ?case
  proof (cases "readcmd_word cfg ext word v w")
    case None
    with Cons.prems show ?thesis by simp
  next
    case (Some r1)
    from readcmd_word_settled[OF Some Cons.prems(2)] have s1: "settled r1" .
    show ?thesis
    proof (cases r1)
      case (Inl w1)
      with Some Cons.prems s1 show ?thesis by simp
    next
      case (Inr vw)
      obtain v1 w1 where vw: "vw = (v1, w1)" by (cases vw)
      with Inr Some Cons.prems have "readcmd_words cfg ext rest v1 w1 = Some r" by simp
      moreover from s1 Inr vw have "ready w1" by (simp add: settled_def)
      ultimately show ?thesis by (rule Cons.IH)
    qed
  qed
qed

lemma ready_rate_limit: "ready w \<Longrightarrow> ready (rate_limit cfg now w)"
  by (simp add: rate_limit_def Let_def ready_note)

lemma ready_clear_leds [simp]: "ready (clear_leds cfg c w) = ready w"
  by (simp add: clear_leds_def)

lemma phase_clear_leds [simp]: "calls (clear_leds cfg c w) = calls w"
  by (simp add: clear_leds_def)

lemma readcmd_finish_phase:
  assumes "readcmd_finish cfg ext now c w = Some (rc, w')" and "ready w"
  shows "(rc = 0 \<and> phase_of (calls w') = Ready) \<or> (rc = 1 \<and> phase_of (calls w') = Aborted)"
proof (cases "needs_fw_update (kb w)")
  case True
  with assms show ?thesis by (auto simp: readcmd_finish_def ready_def)
next
  case False
  define w1 where "w1 = (if c = RGB then rate_limit cfg now w else w)"
  have r1: "ready w1" using assms(2) by (simp add: w1_def ready_rate_limit)
  show ?thesis
  proof (cases "try_with_reset ext (Vt_updatergb 0) w1")
    case None
    with False assms(1) show ?thesis by (simp add: readcmd_finish_def w1_def)
  next
    case (Some ra)
    from harness_phase_aux[OF Some] r1
    have pa: "phase_of (calls (outcome ra)) = (case ra of Inl x \<Rightarrow> Aborted | Inr x \<Rightarrow> Ready)"
      by (simp add: ready_def)
    show ?thesis
    proof (cases ra)
      case (Inl w2)
      with Some False assms(1) pa show ?thesis
        by (auto simp: readcmd_finish_def w1_def outcome_def)
    next
      case (Inr w2)
      with pa have p2: "phase_of (calls w2) = Ready" by (simp add: outcome_def)
      show ?thesis
      proof (cases "try_with_reset ext (Vt_updatedpi 0) w2")
        case None
        with Some Inr False assms(1) show ?thesis by (simp add: readcmd_finish_def w1_def)
      next
        case S2: (Some rb)
        from harness_phase_aux[OF S2] p2
        have pb: "phase_of (calls (outcome rb)) = (case rb of Inl x \<Rightarrow> Aborted | Inr x \<Rightarrow> Ready)"
          by simp
        from S2 Some Inr False assms(1) pb show ?thesis
          by (cases rb) (auto simp: readcmd_finish_def w1_def outcome_def)
      qed
    qed
  qed
qed

lemma fwupdate_word:
  assumes "command v = FWUPDATE" and "map_of cmd_strings word = None"
    and "select_channel cfg word = None" and "active (kb w)"
  shows "readcmd_word cfg ext word v w =
           (if fst (ext (Vt_fwupdate (mode v) (notifynumber v) word) (kb w)) \<noteq> 0
            then Some (Inl (perform ext (Vt_fwupdate (mode v) (notifynumber v) word) w))
            else Some (Inr (v, perform ext (Vt_fwupdate (mode v) (notifynumber v) word) w)))"
  using assms
  by (simp add: readcmd_word_def match_verb_none rejected_def fw_gate_def always_cmd_def
      active_cmd_def command_update_same case_prod_beta perform_def)

subsection \<open>The last verb and the rate limiter\<close>

lemma loop_facts_run:
  assumes "loop_facts r = Some (c, a, f, s, n)"
  obtains v w where "r = Some (Inr (v, w))" "command v = c" "active (kb w) = a"
    "needs_fw_update (kb w) = f" "tv_sec (last_rgb (kb w)) = s" "tv_nsec (last_rgb (kb w)) = n"
  using assms by (auto simp: loop_facts_def split: option.splits sum.splits)

lemma result_calls_run:
  assumes "result_calls r = Some (rc, cs)"
  obtains w where "r = Some (rc, w)" "called w = cs"
  using assms by (auto simp: result_calls_def)

lemma always_cmd_command:
  "always_cmd cfg ext word v w = Some (v', w') \<Longrightarrow> command v' = command v"
  by (cases "command v") (auto simp: always_cmd_def Let_def split: scan.splits if_splits)

lemma and_then_command:
  "and_then t (\<lambda>w1. Some (Inr (v, w1))) = Some (Inr (v', w')) \<Longrightarrow> v' = v"
  by (auto simp: and_then_def split: option.splits sum.splits)

lemma active_cmd_command:
  assumes "active_cmd cfg ext word v w = Some (Inr (v', w'))"
  shows "command v' = command v"
proof (cases "command v")
  case IDLE
  with assms show ?thesis by (auto simp: active_cmd_def dest: and_then_command)
next
  case HWLOAD
  with assms have "hw_io ext v w = Some (Inr (v', w'))" by (simp add: active_cmd_def)
  from hw_io_restored[OF this] show ?thesis by simp
next
  case HWSAVE
  with assms have "hw_io ext v w = Some (Inr (v', w'))" by (simp add: active_cmd_def)
  from hw_io_restored[OF this] show ?thesis by simp
next
  case FWUPDATE
  with assms show ?thesis by (auto simp: active_cmd_def case_prod_beta split: if_splits)
next
  case POLLRATE
  with assms show ?thesis
    by (auto simp: active_cmd_def set_pollrate_def split: if_splits option.splits
        dest: and_then_command)
next
  case ERASEPROFILE
  with assms show ?thesis by (auto simp: active_cmd_def Let_def)
qed (insert assms, auto simp: active_cmd_def whole_word_def split: if_splits)

lemma readcmd_word_command:
  assumes "readcmd_word cfg ext word v w = Some (Inr (v', w'))"
  shows "command v' = fst (match_verb cfg word (command v))"
proof -
  obtain c nl where m: "match_verb cfg word (command v) = (c, nl)"
    by (cases "match_verb cfg word (command v)")
  define v1 where "v1 = v\<lparr>command := c\<rparr>"
  have c1: "command v1 = c" by (simp add: v1_def)
  show ?thesis
  proof (cases "nl \<or> select_channel cfg word \<noteq> None \<or> rejected (kb w) c \<or> fw_gate (kb w) c")
    case True
    with assms m show ?thesis
      by (auto simp: readcmd_word_def Let_def split: option.splits if_splits)
  next
    case False
    then have f: "\<not> nl" "select_channel cfg word = None" "\<not> rejected (kb w) c"
        "\<not> fw_gate (kb w) c" by auto
    show ?thesis
    proof (cases "always_cmd cfg ext word v1 w")
      case (Some vw)
      obtain v2 w2 where vw: "vw = (v2, w2)" by (cases vw)
      from always_cmd_command[OF Some[unfolded vw]] assms m f Some vw c1
      show ?thesis by (auto simp: readcmd_word_def v1_def)
    next
      case None
      show ?thesis
      proof (cases "active (kb w)")
        case True
        with assms m f None have "active_cmd cfg ext word v1 w = Some (Inr (v', w'))"
          by (simp add: readcmd_word_def v1_def)
        from active_cmd_command[OF this] m c1 show ?thesis by simp
      next
        case False
        with assms m f None c1 show ?thesis
          by (auto simp: readcmd_word_def v1_def Let_def split: if_splits dest: and_then_command)
      qed
    qed
  qed
qed

lemma readcmd_words_command:
  "readcmd_words cfg ext ws v w = Some (Inr (v', w')) \<Longrightarrow> command v' = last_verb cfg ws (command v)"
proof (induction ws arbitrary: v w)
  case Nil
  then show ?case by simp
next
  case (Cons word rest)
  show ?case
  proof (cases "readcmd_word cfg ext word v w")
    case None
    with Cons.prems show ?thesis by simp
  next
    case (Some r1)
    show ?thesis
    proof (cases r1)
      case (Inl w1)
      with Some Cons.prems show ?thesis by simp
    next
      case (Inr vw)
      obtain v1 w1 where vw: "vw = (v1, w1)" by (cases vw)
      with Inr Some Cons.prems have "readcmd_words cfg ext rest v1 w1 = Some (Inr (v', w'))"
        by simp
      from Cons.IH[OF this] readcmd_word_command[OF Some[unfolded Inr vw]]
      show ?thesis by simp
    qed
  qed
qed

lemma rate_limit_window:
  assumes "0 < timespec_diff_ns now (last_rgb (kb w))"
    and "timespec_diff_ns now (last_rgb (kb w)) < HERTZ_LIM"
  shows "kb (rate_limit cfg now w)
           = (kb w)\<lparr>last_rgb := now\<lparr>tv_nsec := tv_nsec now
                 + (HERTZ_LIM - timespec_diff_ns now (last_rgb (kb w)))\<rparr>\<rparr>
         \<and> calls (rate_limit cfg now w)
             = calls w @ (if NDEBUG cfg then []
                          else [(Ckb_warn (timespec_diff_ns now (last_rgb (kb w))), kb w, 0)])
                 @ [(Clock_nanosleep (HERTZ_LIM - timespec_diff_ns now (last_rgb (kb w))), kb w, 0)]"
  using assms by (simp add: rate_limit_def Let_def)

lemma rate_limit_outside:
  assumes "\<not> (0 < timespec_diff_ns now (last_rgb (kb w))
             \<and> timespec_diff_ns now (last_rgb (kb w)) < HERTZ_LIM)"
  shows "rate_limit cfg now w = w\<lparr>kb := (kb w)\<lparr>last_rgb := now\<rparr>\<rparr>"
  using assms by (auto simp: rate_limit_def Let_def)

lemma rate_limit_spacing:
  assumes "0 < true_diff now (last_rgb (kb w))"
    and "timespec_diff_ns now (last_rgb (kb w)) = true_diff now (last_rgb (kb w))"
  shows "HERTZ_LIM \<le> true_diff (last_rgb (kb (rate_limit cfg now w))) (last_rgb (kb w))"
  using assms by (auto simp: rate_limit_def Let_def true_diff_def)

lemma finish_first_call:
  assumes "readcmd_finish cfg ext now c w = Some (rc, w')" and "\<not> needs_fw_update (kb w)"
  shows "\<exists>rcu t. calls w' = calls (if c = RGB then rate_limit cfg now w else w)
            @ (Vt_updatergb 0, kb (if c = RGB then rate_limit cfg now w else w), rcu) # t"
proof -
  define w1 where "w1 = (if c = RGB then rate_limit cfg now w else w)"
  show ?thesis
  proof (cases "try_with_reset ext (Vt_updatergb 0) w1")
    case None
    with assms show ?thesis by (simp add: readcmd_finish_def w1_def)
  next
    case (Some ra)
    from try_first_call[OF Some] obtain t where
      t: "calls (outcome ra) = calls w1 @ (Vt_updatergb 0, kb w1, fst (ext (Vt_updatergb 0) (kb w1))) # t"
      by blast
    show ?thesis
    proof (cases ra)
      case (Inl w2)
      with Some assms t show ?thesis
        by (auto simp: readcmd_finish_def w1_def outcome_def)
    next
      case (Inr w2)
      show ?thesis
      proof (cases "try_with_reset ext (Vt_updatedpi 0) w2")
        case None
        with Some Inr assms show ?thesis by (simp add: readcmd_finish_def w1_def)
      next
        case S2: (Some rb)
        from try_calls_grow[OF S2] obtain t2 where t2: "calls (outcome rb) = calls w2 @ t2"
          by blast
        from S2 Some Inr assms t t2 show ?thesis
          by (cases rb) (auto simp: readcmd_finish_def w1_def outcome_def)
      qed
    qed
  qed
qed

subsection \<open>The gate of the inactive device\<close>

lemma always_cmd_calls:
  assumes "always_cmd cfg ext word v w = Some (v', w')"
  shows "\<exists>t. calls w' = calls w @ t \<and> list_all (\<lambda>e. inactive_call (fst e)) t"
  using assms
  by (cases "command v")
     (auto simp: always_cmd_def inactive_call_def set_layout_def set_fps_def set_dither_def
        Let_def split: scan.splits if_splits)

lemma always_cmd_dormant:
  assumes "always_cmd cfg ext word v w = Some (v', w')"
    and "\<forall>x d. inactive_call x \<and> dormant d \<longrightarrow> dormant (snd (ext x d))"
    and "dormant (kb w)"
  shows "dormant (kb w')"
proof -
  have p: "dormant (kb (perform ext x w))" if "inactive_call x" for x
    using that assms(2,3) by simp
  have q: "dormant (kb (w\<lparr>kb := d\<rparr>))"
    if "active d = active (kb w)" "needs_fw_update d = needs_fw_update (kb w)" for d
    using that assms(3) by (simp add: dormant_def)
  from assms(1) show ?thesis
  proof (cases "command v")
    case NOTIFYON
    with assms(1,3) show ?thesis
      by (auto simp: always_cmd_def inactive_call_def intro!: p split: scan.splits if_splits)
  next
    case NOTIFYOFF
    with assms(1,3) show ?thesis
      by (auto simp: always_cmd_def inactive_call_def intro!: p split: scan.splits if_splits)
  next
    case GET
    with assms(1,3) show ?thesis
      by (auto simp: always_cmd_def inactive_call_def intro!: p)
  next
    case RESET
    with assms(1,3) show ?thesis
      by (auto simp: always_cmd_def inactive_call_def intro!: p)
  qed (insert assms(1,3), auto simp: always_cmd_def dormant_def set_layout_def set_fps_def
         set_dither_def Let_def split: scan.splits if_splits)
qed

lemma always_cmd_family:
  "always_cmd cfg ext word v w = Some r \<Longrightarrow> always_family (command v)"
  by (cases "command v") (auto simp: always_cmd_def always_family_def)

lemma active_harness_dormant:
  assumes run: "try_with_reset ext (Vt_active m n) w = Some r"
    and frame: "\<And>x d. inactive_call x \<Longrightarrow> dormant d \<Longrightarrow> dormant (snd (ext x d))"
    and d: "dormant (kb w)"
  shows "dormant (kb (outcome r))
         \<and> (\<exists>t. calls (outcome r) = calls w @ t \<and> list_all (\<lambda>e. inactive_call (fst e)) t)"
proof -
  define Q where "Q = (\<lambda>w' :: world. dormant (kb w')
         \<and> (\<exists>t. calls w' = calls w @ t \<and> list_all (\<lambda>e. inactive_call (fst e)) t))"
  have a: "inactive_call (Vt_active m n)" "inactive_call Usb_tryreset"
    by (simp_all add: inactive_call_def)
  have Q0: "Q w" using d by (simp add: Q_def)
  have s1: "Q (snd (invoke ext (Vt_active m n) x))" if "Q x" for x
    using that frame[OF a(1)] a(1) by (auto simp: Q_def)
  have s2: "Q (snd (invoke ext Usb_tryreset x))" if "Q x" for x
    using that frame[OF a(2)] a(2) by (auto simp: Q_def)
  have "Q (outcome r)"
    by (rule try_with_reset_inv[OF run, where Q = Q]) (auto intro: s1 s2 Q0)
  then show ?thesis by (simp add: Q_def)
qed

lemma harness_only_active:
  assumes run: "try_with_reset ext (Vt_active m n) w = Some r"
  shows "\<exists>t. calls (outcome r) = calls w @ t \<and> list_all (\<lambda>e. inactive_call (fst e)) t"
proof -
  define Q where "Q = (\<lambda>w' :: world.
         \<exists>t. calls w' = calls w @ t \<and> list_all (\<lambda>e. inactive_call (fst e)) t)"
  have "Q (outcome r)"
    by (rule try_with_reset_inv[OF run, where Q = Q]) (auto simp: Q_def inactive_call_def)
  then show ?thesis by (simp add: Q_def)
qed

lemma inactive_word_cases:
  assumes "\<not> active (kb w)" and "\<not> needs_fw_update (kb w)"
  obtains (skip) v' where "readcmd_word cfg ext word v w = Some (Inr (v', w))"
  | (always) v' w' where "readcmd_word cfg ext word v w = Some (Inr (v', w'))"
      "always_cmd cfg ext word (v\<lparr>command := fst (match_verb cfg word (command v))\<rparr>) w
         = Some (v', w')"
  | (activate) "fst (match_verb cfg word (command v)) = ACTIVE"
      "readcmd_word cfg ext word v w
         = and_then (try_with_reset ext (Vt_active (mode v) (notifynumber v)) w)
             (\<lambda>w1. Some (Inr (v\<lparr>command := ACTIVE\<rparr>, w1)))"
proof -
  obtain c nl where m: "match_verb cfg word (command v) = (c, nl)"
    by (cases "match_verb cfg word (command v)")
  define v1 where "v1 = v\<lparr>command := c\<rparr>"
  show thesis
  proof (cases "nl \<or> select_channel cfg word \<noteq> None \<or> rejected (kb w) c \<or> fw_gate (kb w) c")
    case True
    with m have "\<exists>v'. readcmd_word cfg ext word v w = Some (Inr (v', w))"
      by (auto simp: readcmd_word_def Let_def split: option.splits if_splits)
    then show thesis using skip by blast
  next
    case False
    then have f: "\<not> nl" "select_channel cfg word = None" "\<not> rejected (kb w) c"
        "\<not> fw_gate (kb w) c" by auto
    show thesis
    proof (cases "always_cmd cfg ext word v1 w")
      case (Some vw)
      obtain v' w' where vw: "vw = (v', w')" by (cases vw)
      with Some m f have "readcmd_word cfg ext word v w = Some (Inr (v', w'))"
        by (simp add: readcmd_word_def v1_def)
      with Some vw m show thesis using always by (simp add: v1_def)
    next
      case None
      show thesis
      proof (cases "c = ACTIVE")
        case True
        with None m f assms(1) have "readcmd_word cfg ext word v w
         = and_then (try_with_reset ext (Vt_active (mode v) (notifynumber v)) w)
             (\<lambda>w1. Some (Inr (v\<lparr>command := ACTIVE\<rparr>, w1)))"
          by (simp add: readcmd_word_def v1_def)
        with True m show thesis using activate by simp
      next
        case False
        with None m f assms(1) have "readcmd_word cfg ext word v w = Some (Inr (v1, w))"
          by (simp add: readcmd_word_def v1_def)
        then show thesis using skip by blast
      qed
    qed
  qed
qed

lemma inactive_word:
  assumes d: "dormant (kb w)"
    and run: "readcmd_word cfg ext word v w = Some r"
  shows "(\<exists>t. calls (final_world r) = calls w @ t \<and> list_all (\<lambda>e. inactive_call (fst e)) t)
       \<and> ((\<forall>x d. inactive_call x \<and> dormant d \<longrightarrow> dormant (snd (ext x d)))
            \<longrightarrow> dormant (kb (final_world r)))"
proof -
  from d have na: "\<not> active (kb w)" and nf: "\<not> needs_fw_update (kb w)"
    by (simp_all add: dormant_def)
  from na nf show ?thesis
  proof (cases rule: inactive_word_cases[where cfg = cfg and ext = ext and word = word and v = v])
    case (skip v')
    with run d show ?thesis by (auto simp: final_world_def)
  next
    case (always v' w')
    from always_cmd_calls[OF always(2)] always_cmd_dormant[OF always(2) _ d] always(1) run
    show ?thesis
      by (auto simp: final_world_def)
  next
    case activate
    show ?thesis
    proof (cases "try_with_reset ext (Vt_active (mode v) (notifynumber v)) w")
      case None
      with activate(2) run show ?thesis by (simp add: and_then_def)
    next
      case (Some r1)
      have fw: "final_world r = outcome r1"
        using Some activate(2) run
        by (cases r1) (auto simp: and_then_def final_world_def outcome_def)
      from harness_only_active[OF Some] active_harness_dormant[OF Some _ d]
      show ?thesis unfolding fw by blast
    qed
  qed
qed

lemma inactive_words:
  assumes frame: "\<forall>x d. inactive_call x \<and> dormant d \<longrightarrow> dormant (snd (ext x d))"
  shows "dormant (kb w) \<Longrightarrow> readcmd_words cfg ext ws v w = Some r \<Longrightarrow>
         (\<exists>t. calls (final_world r) = calls w @ t \<and> list_all (\<lambda>e. inactive_call (fst e)) t)
         \<and> dormant (kb (final_world r))"
proof (induction ws arbitrary: v w)
  case Nil
  then show ?case by (auto simp: final_world_def)
next
  case (Cons word rest)
  show ?case
  proof (cases "readcmd_word cfg ext word v w")
    case None
    with Cons.prems show ?thesis by simp
  next
    case (Some r1)
    from inactive_word[OF Cons.prems(1) Some] frame
    obtain t1 where t1: "calls (final_world r1) = calls w @ t1"
        "list_all (\<lambda>e. inactive_call (fst e)) t1" and d1: "dormant (kb (final_world r1))"
      by blast
    show ?thesis
    proof (cases r1)
      case (Inl w1)
      with Some Cons.prems have "r = Inl w1" by simp
      with Inl t1 d1 show ?thesis by (auto simp: final_world_def)
    next
      case (Inr vw)
      obtain v1 w1 where vw: "vw = (v1, w1)" by (cases vw)
      with Inr Some Cons.prems have run: "readcmd_words cfg ext rest v1 w1 = Some r" by simp
      from d1 Inr vw have dw: "dormant (kb w1)" by (simp add: final_world_def)
      from t1 Inr vw have c1: "calls w1 = calls w @ t1" by (simp add: final_world_def)
      from Cons.IH[OF dw run] obtain t2 where
        t2: "calls (final_world r) = calls w1 @ t2" "list_all (\<lambda>e. inactive_call (fst e)) t2"
        and d2: "dormant (kb (final_world r))" by blast
      from t2 c1 t1(2) have "calls (final_world r) = calls w @ (t1 @ t2)
          \<and> list_all (\<lambda>e. inactive_call (fst e)) (t1 @ t2)" by simp
      with d2 show ?thesis by blast
    qed
  qed
qed

subsection \<open>The firmware gate\<close>

lemma replay_append: "replay ext d (t1 @ t2) = replay ext (replay ext d t1) t2"
  by (simp add: replay_def)

lemma bricked_perform:
  assumes "bricked_call x" and "needs_fw_update (kb w)"
  shows "\<exists>t. calls (perform ext x w) = calls w @ t
             \<and> list_all (\<lambda>e. bricked_call (fst e) \<and> needs_fw_update (fst (snd e))) t
             \<and> kb (perform ext x w) = replay ext (kb w) t"
  using assms by (simp add: replay_def)

lemma bricked_same:
  "\<exists>t. calls w = calls w @ t
       \<and> list_all (\<lambda>e. bricked_call (fst e) \<and> needs_fw_update (fst (snd e))) t
       \<and> kb w = replay ext (kb w) t"
  by (simp add: replay_def)

lemma bricked_word:
  assumes nfu: "needs_fw_update (kb w)"
  shows "\<exists>r t. readcmd_word cfg ext word v w = Some r
           \<and> calls (final_world r) = calls w @ t
           \<and> list_all (\<lambda>e. bricked_call (fst e) \<and> needs_fw_update (fst (snd e))) t
           \<and> kb (final_world r) = replay ext (kb w) t"
proof -
  obtain c nl where m: "match_verb cfg word (command v) = (c, nl)"
    by (cases "match_verb cfg word (command v)")
  define v1 where "v1 = v\<lparr>command := c\<rparr>"
  have c1: "command v1 = c" "mode v1 = mode v" "notifynumber v1 = notifynumber v"
    by (simp_all add: v1_def)
  have skip: ?thesis if "readcmd_word cfg ext word v w = Some (Inr (v', w))" for v'
    using that bricked_same[of w ext] by (auto simp: final_world_def)
  have one: ?thesis
    if "readcmd_word cfg ext word v w = Some (Inr (v', perform ext x w))" "bricked_call x"
    for v' x
    using that(1) bricked_perform[OF that(2) nfu, of ext] by (auto simp: final_world_def)
  show ?thesis
  proof (cases "nl \<or> select_channel cfg word \<noteq> None \<or> rejected (kb w) c \<or> fw_gate (kb w) c")
    case True
    with m have "\<exists>v'. readcmd_word cfg ext word v w = Some (Inr (v', w))"
      by (auto simp: readcmd_word_def Let_def split: option.splits if_splits)
    then show ?thesis using skip by blast
  next
    case False
    then have f: "\<not> nl" "select_channel cfg word = None" "\<not> rejected (kb w) c"
        "\<not> fw_gate (kb w) c" by auto
    from f(4) nfu consider "c = FWUPDATE" | "c = NOTIFYON" | "c = NOTIFYOFF" | "c = RESET"
      by (auto simp: fw_gate_def)
    then show ?thesis
    proof cases
      case 1
      have none: "always_cmd cfg ext word v1 w = None"
        using 1 by (simp add: always_cmd_def c1)
      show ?thesis
      proof (cases "active (kb w)")
        case False
        with 1 m f none have "readcmd_word cfg ext word v w = Some (Inr (v1, w))"
          by (simp add: readcmd_word_def v1_def)
        then show ?thesis by (rule skip)
      next
        case True
        let ?x = "Vt_fwupdate (mode v) (notifynumber v) word"
        from True 1 m f none
        have e: "readcmd_word cfg ext word v w
                   = (if fst (ext ?x (kb w)) \<noteq> 0 then Some (Inl (perform ext ?x w))
                      else Some (Inr (v1, perform ext ?x w)))"
          by (simp add: readcmd_word_def v1_def active_cmd_def case_prod_beta perform_def)
        have b: "bricked_call ?x" by (simp add: bricked_call_def)
        show ?thesis
        proof (cases "fst (ext ?x (kb w)) \<noteq> 0")
          case T: True
          with e bricked_perform[OF b nfu, of ext] show ?thesis
            by (auto simp: final_world_def)
        next
          case F: False
          with e have "readcmd_word cfg ext word v w = Some (Inr (v1, perform ext ?x w))"
            by simp
          from one[OF this b] show ?thesis .
        qed
      qed
    next
      case 2
      show ?thesis
      proof (cases "sscanf_d word")
        case (Conv n rest)
        with 2 m f have "readcmd_word cfg ext word v w
            = Some (Inr (v1, perform ext (Mknotifynode n) w))"
          by (simp add: readcmd_word_def v1_def always_cmd_def)
        from one[OF this] show ?thesis by (simp add: bricked_call_def)
      next
        case MatchFail
        with 2 m f have "readcmd_word cfg ext word v w = Some (Inr (v1, w))"
          by (simp add: readcmd_word_def v1_def always_cmd_def)
        then show ?thesis by (rule skip)
      next
        case InputFail
        with 2 m f have "readcmd_word cfg ext word v w = Some (Inr (v1, w))"
          by (simp add: readcmd_word_def v1_def always_cmd_def)
        then show ?thesis by (rule skip)
      qed
    next
      case 3
      show ?thesis
      proof (cases "sscanf_d word")
        case (Conv n rest)
        show ?thesis
        proof (cases "n = 0")
          case True
          with Conv 3 m f have "readcmd_word cfg ext word v w = Some (Inr (v1, w))"
            by (simp add: readcmd_word_def v1_def always_cmd_def)
          then show ?thesis by (rule skip)
        next
          case False
          with Conv 3 m f have "readcmd_word cfg ext word v w
              = Some (Inr (v1, perform ext (Rmnotifynode n) w))"
            by (simp add: readcmd_word_def v1_def always_cmd_def)
          from one[OF this] show ?thesis by (simp add: bricked_call_def)
        qed
      next
        case MatchFail
        with 3 m f have "readcmd_word cfg ext word v w = Some (Inr (v1, w))"
          by (simp add: readcmd_word_def v1_def always_cmd_def)
        then show ?thesis by (rule skip)
      next
        case InputFail
        with 3 m f have "readcmd_word cfg ext word v w = Some (Inr (v1, w))"
          by (simp add: readcmd_word_def v1_def always_cmd_def)
        then show ?thesis by (rule skip)
      qed
    next
      case 4
      with m f have "readcmd_word cfg ext word v w
          = Some (Inr (v1, perform ext (Vt_reset (mode v) (notifynumber v) 0 word) w))"
        by (simp add: readcmd_word_def v1_def always_cmd_def)
      from one[OF this] show ?thesis by (simp add: bricked_call_def)
    qed
  qed
qed

lemma bricked_words:
  "flag_stays cfg ext ws v w \<Longrightarrow>
     \<exists>r t. readcmd_words cfg ext ws v w = Some r
       \<and> calls (final_world r) = calls w @ t
       \<and> list_all (\<lambda>e. bricked_call (fst e) \<and> needs_fw_update (fst (snd e))) t
       \<and> kb (final_world r) = replay ext (kb w) t
       \<and> (\<forall>v1 w1. r = Inr (v1, w1) \<longrightarrow> needs_fw_update (kb w1))"
proof (induction ws arbitrary: v w)
  case Nil
  then show ?case using bricked_same[of w ext] by (auto simp: final_world_def)
next
  case (Cons word rest)
  from Cons.prems have nfu: "needs_fw_update (kb w)" by simp
  from bricked_word[OF nfu] obtain r1 t1 where
    w1: "readcmd_word cfg ext word v w = Some r1"
      "calls (final_world r1) = calls w @ t1"
      "list_all (\<lambda>e. bricked_call (fst e) \<and> needs_fw_update (fst (snd e))) t1"
      "kb (final_world r1) = replay ext (kb w) t1"
    by blast
  show ?case
  proof (cases r1)
    case (Inl wa)
    with w1 have "readcmd_words cfg ext (word # rest) v w = Some r1" by simp
    with w1 Inl show ?thesis by blast
  next
    case (Inr vw)
    obtain v1 wb where vw: "vw = (v1, wb)" by (cases vw)
    from Cons.prems w1(1) Inr vw have s1: "flag_stays cfg ext rest v1 wb" by simp
    from Cons.IH[OF s1] obtain r t2 where
      w2: "readcmd_words cfg ext rest v1 wb = Some r"
        "calls (final_world r) = calls wb @ t2"
        "list_all (\<lambda>e. bricked_call (fst e) \<and> needs_fw_update (fst (snd e))) t2"
        "kb (final_world r) = replay ext (kb wb) t2"
        "\<forall>v2 w2. r = Inr (v2, w2) \<longrightarrow> needs_fw_update (kb w2)"
      by blast
    from w1 Inr vw have cb: "calls wb = calls w @ t1" "kb wb = replay ext (kb w) t1"
      by (simp_all add: final_world_def)
    have "readcmd_words cfg ext (word # rest) v w = Some r"
      using w1(1) Inr vw w2(1) by simp
    moreover have "calls (final_world r) = calls w @ (t1 @ t2)"
      using w2(2) cb by simp
    moreover have
      "list_all (\<lambda>e. bricked_call (fst e) \<and> needs_fw_update (fst (snd e))) (t1 @ t2)"
      using w1(3) w2(3) by simp
    moreover have "kb (final_world r) = replay ext (kb w) (t1 @ t2)"
      using w2(4) cb by (simp add: replay_append)
    ultimately show ?thesis using w2(5) by blast
  qed
qed

section \<open>The claims\<close>

text \<open>
  C8, at two pairs of times. The first pair is \<open>9223372037\<close> seconds apart, more than
  \<open>LONG_MAX\<close> nanoseconds: the nanosecond fields are equal, the overflow test is not made
  (it asks for \<open>diff_ns > 0\<close>), and the product wraps around to a negative number instead
  of the saturated \<open>LONG_MAX\<close>. The second pair is further apart still, and the wrapped
  difference is ten milliseconds: the rate limiter takes it as inside its window and sleeps.
\<close>

theorem timespec_diff_ns_wraps:
  "LONG_MAX < (9223372037 - 0) * 1000000000 + (0 - 0)
   \<and> timespec_diff_ns \<lparr>tv_sec = 9223372037, tv_nsec = 0\<rparr> \<lparr>tv_sec = 0, tv_nsec = 0\<rparr>
       = - 9223372036709551616
   \<and> LONG_MAX < (36028797018963969 - 0) * 1000000000 + (0 - 990000000)
   \<and> timespec_diff_ns \<lparr>tv_sec = 36028797018963969, tv_nsec = 0\<rparr>
         \<lparr>tv_sec = 0, tv_nsec = 990000000\<rparr> = 10000000
   \<and> called (rate_limit demo_platform \<lparr>tv_sec = 36028797018963969, tv_nsec = 0\<rparr>
         (demo_world\<lparr>kb := demo_device\<lparr>last_rgb := \<lparr>tv_sec = 0, tv_nsec = 990000000\<rparr>\<rparr>\<rparr>))
       = [Clock_nanosleep 6528925]"
  by (simp add: timespec_diff_ns_def long_wrap_def LONG_MAX_def rate_limit_def HERTZ_LIM_def
      called_def demo_platform_def demo_world_def Let_def)

text \<open>
  C10: a word that selects a channel changes the channel and nothing else. The verb that waits
  for its parameter still waits, the words after the selector are read with the same verb and
  the new channel; so \<open>name @n arg\<close> calls the handler of \<open>NAME\<close> with \<open>arg\<close> on
  channel \<open>n\<close>.
\<close>

theorem selector_keeps_pending_verb:
  assumes "select_channel cfg sel = Some n"
  shows "readcmd_words cfg ext (sel # rest) v w
           = readcmd_words cfg ext rest (v\<lparr>notifynumber := n\<rparr>) w
         \<and> (active (kb w) \<and> \<not> needs_fw_update (kb w)
              \<and> map_of cmd_strings arg = None \<and> select_channel cfg arg = None
            \<longrightarrow> readcmd_words cfg ext [''name'', sel, arg] v w
                  = Some (Inr (v\<lparr>command := NAME, notifynumber := n\<rparr>,
                               perform ext (Vt_do_cmd NAME (mode v) n 0 arg) w)))"
proof -
  have verb: "match_verb cfg ''name'' (command v) = (NAME, True)"
    by (simp add: match_verb_def cmd_strings_def is_action_def)
  have first: "readcmd_word cfg ext ''name'' v w = Some (Inr (v\<lparr>command := NAME\<rparr>, w))"
    by (simp add: readcmd_word_def verb)
  have arg: "readcmd_word cfg ext arg v' w
               = Some (Inr (v', perform ext (Vt_do_cmd NAME (mode v') (notifynumber v') 0 arg) w))"
    if "active (kb w)" "\<not> needs_fw_update (kb w)"
       "map_of cmd_strings arg = None" "select_channel cfg arg = None" "command v' = NAME"
    for v'
    using that
    by (simp add: readcmd_word_def match_verb_none rejected_def fw_gate_def always_cmd_def
        active_cmd_def whole_word_def)
  show ?thesis
    by (simp add: selector_word[OF assms] first arg)
qed

theorem selector_keeps_pending_verb_witness:
  "select_channel demo_platform ''@3'' = Some 3
   \<and> readcmd_words demo_platform ext_ok [''name'', ''@3'', ''foo''] demo_vars demo_world
       = Some (Inr (\<lparr>command = NAME, notifynumber = 3, mode = 0\<rparr>,
                    perform ext_ok (Vt_do_cmd NAME 0 3 0 ''foo'') demo_world))"
proof -
  have sel: "select_channel demo_platform ''@3'' = Some 3"
    by code_simp
  have a: "active (kb demo_world) \<and> \<not> needs_fw_update (kb demo_world)"
    by (simp add: demo_world_def demo_device_def)
  have b: "map_of cmd_strings ''foo'' = None \<and> select_channel demo_platform ''foo'' = None"
    by code_simp
  from selector_keeps_pending_verb[OF sel, of ext_ok "[]" demo_vars demo_world "''foo''"] a b sel
  show ?thesis by (simp add: demo_vars_def)
qed




text \<open>
  C1, as the spec has it, fails: the words \<open>abcde\<close> and \<open>abcdefg\<close> are not six
  lowercase hexadecimal digits, and \<open>rgb abcde\<close> and \<open>rgb abcdefg\<close> are broadcast to
  every key all the same.
\<close>

theorem rgb_hex_match_counterexample:
  "\<not> spec_rgb_hex ''abcde'' \<and> \<not> spec_rgb_hex ''abcdefg''
   \<and> result_calls (readcmd demo_platform ext_ok \<lparr>tv_sec = 1, tv_nsec = 0\<rparr> ''rgb abcde''
        demo_world)
       = Some (0, [Vt_rgb 0 (- 1) 0 ''abcde'', Vt_rgb 0 (- 1) 1 ''abcde'',
                   Vt_rgb 0 (- 1) 2 ''abcde'', Vt_updatergb 0, Vt_updatedpi 0])
   \<and> result_calls (readcmd demo_platform ext_ok \<lparr>tv_sec = 1, tv_nsec = 0\<rparr> ''rgb abcdefg''
        demo_world)
       = Some (0, [Vt_rgb 0 (- 1) 0 ''abcdefg'', Vt_rgb 0 (- 1) 1 ''abcdefg'',
                   Vt_rgb 0 (- 1) 2 ''abcdefg'', Vt_updatergb 0, Vt_updatedpi 0])"
  by code_simp

text \<open>
  C1, amended: with \<open>RGB\<close> waiting for its parameter on an active device, the broadcast runs
  if and only if \<open>sscanf\<close> converts three fields of \<open>%02x\<close>. It then calls \<open>vt->rgb\<close>
  once for each key index below \<open>N_KEYS_EXTENDED\<close>, in order, with channel \<open>-1\<close> and the
  whole word; otherwise the word goes to the split at the colon. A word of hexadecimal digits
  converts three fields exactly when it has five digits or more, and so does every word that
  starts with six hexadecimal digits, whatever follows them.
\<close>

theorem rgb_hex_broadcast:
  assumes "command v = RGB" and "map_of cmd_strings word = None"
    and "select_channel cfg word = None" and "active (kb w)" and "\<not> needs_fw_update (kb w)"
  shows "readcmd_word cfg ext word v w =
           Some (Inr (v, if sscanf_rgb word = 3 then rgb_all cfg ext (mode v) word w
                         else colon_split cfg ext word v w))
         \<and> called (rgb_all cfg ext (mode v) word w)
             = called w @ map (\<lambda>i. Vt_rgb (mode v) (- 1) (int i) word) [0..<N_KEYS_EXTENDED cfg]
         \<and> (list_all isxdigit word \<longrightarrow> (sscanf_rgb word = 3) = (5 \<le> length word))
         \<and> (list_all isxdigit (take 6 word) \<and> 6 \<le> length word \<longrightarrow> sscanf_rgb word = 3)"
  using rgb_word[OF assms] sscanf_rgb_hex_word sscanf_rgb_hex_prefix
  by (simp add: rgb_all_def foldl_perform_calls)

theorem rgb_hex_broadcast_witness:
  "readcmd_word demo_platform ext_ok ''abcde'' (demo_vars\<lparr>command := RGB\<rparr>) demo_world
     = Some (Inr (demo_vars\<lparr>command := RGB\<rparr>, rgb_all demo_platform ext_ok 0 ''abcde'' demo_world))
   \<and> called (rgb_all demo_platform ext_ok 0 ''abcde'' demo_world)
       = [Vt_rgb 0 (- 1) 0 ''abcde'', Vt_rgb 0 (- 1) 1 ''abcde'', Vt_rgb 0 (- 1) 2 ''abcde'']
   \<and> sscanf_rgb ''abcde'' = 3 \<and> sscanf_rgb ''abcdefg'' = 3 \<and> sscanf_rgb ''abcdef'' = 3
   \<and> sscanf_rgb ''ABCDEF'' = 3 \<and> sscanf_rgb ''abcd'' = 2 \<and> sscanf_rgb ''a:ff0000'' = 1"
proof -
  have h: "command (demo_vars\<lparr>command := RGB\<rparr>) = RGB" "active (kb demo_world)"
      "\<not> needs_fw_update (kb demo_world)"
    by (simp_all add: demo_world_def demo_device_def)
  have n5: "map_of cmd_strings ''abcde'' = None" "select_channel demo_platform ''abcde'' = None"
    by code_simp+
  have n7: "map_of cmd_strings ''abcdefg'' = None"
      "select_channel demo_platform ''abcdefg'' = None"
    by code_simp+
  have x5: "list_all isxdigit ''abcde''"
    by (simp add: isxdigit_def isdigit_def)
  have x7: "list_all isxdigit (take 6 ''abcdefg'') \<and> 6 \<le> length ''abcdefg''"
    by (simp add: isxdigit_def isdigit_def)
  have more: "sscanf_rgb ''abcdef'' = 3 \<and> sscanf_rgb ''ABCDEF'' = 3 \<and> sscanf_rgb ''abcd'' = 2
              \<and> sscanf_rgb ''a:ff0000'' = 1"
    by code_simp
  have up: "[0..<3] = [0, 1, 2]"
    by (simp add: upt_rec)
  from rgb_hex_broadcast[OF h(1) n5 h(2,3), where ext = ext_ok]
       rgb_hex_broadcast[OF h(1) n7 h(2,3), where ext = ext_ok] x5 x7 more
  show ?thesis
    by (simp add: demo_vars_def demo_platform_def demo_world_def called_def up)
qed

text \<open>
  C7, as the spec has it, fails on the exit through a failed reset: with a hardware load and
  a reset that both fail, \<open>readcmd\<close> returns 1 at once and the delay, 5 before the line,
  is left at 10.
\<close>

theorem hwload_restore_counterexample:
  "usbdelay (kb demo_world) = 5
   \<and> result_usbdelay (readcmd demo_platform ext_io_fails \<lparr>tv_sec = 1, tv_nsec = 0\<rparr> ''hwload''
        demo_world) = Some (1, 10)"
  by code_simp

text \<open>
  C7, amended: for \<open>hwload\<close> and \<open>hwsave\<close> on an active device, when the command
  completes (both retried calls come to succeed) \<open>usbdelay\<close> is what it was before the word.
  The first call is \<open>do_io\<close>, made on the device with \<open>usbdelay\<close> raised to at least 10.
  When the operations leave \<open>usbdelay\<close> alone, every call of the command is made with
  \<open>usbdelay\<close> at 10 or more, and on the exit through a failed reset the delay stays raised.
\<close>

theorem hwload_usbdelay:
  assumes "word = ''hwload'' \<or> word = ''hwsave''"
    and "active (kb w)" and "\<not> needs_fw_update (kb w)"
  shows "(\<forall>v' w'. readcmd_word cfg ext word v w = Some (Inr (v', w'))
            \<longrightarrow> usbdelay (kb w') = usbdelay (kb w))
       \<and> (\<forall>r. readcmd_word cfg ext word v w = Some r \<longrightarrow>
            (\<exists>rc t. calls (final_world r)
               = calls w @ (Vt_do_io (if word = ''hwload'' then HWLOAD else HWSAVE)
                               (mode v) (notifynumber v),
                            (kb w)\<lparr>usbdelay := max 10 (usbdelay (kb w))\<rparr>, rc) # t))
       \<and> ((\<forall>c d. usbdelay (snd (ext c d)) = usbdelay d) \<longrightarrow>
           (\<forall>r. readcmd_word cfg ext word v w = Some r \<longrightarrow>
              list_all raised (drop (length (calls w)) (calls (final_world r)))
              \<and> (\<forall>w'. r = Inl w' \<longrightarrow> usbdelay (kb w') = max 10 (usbdelay (kb w)))))"
proof -
  let ?v = "v\<lparr>command := (if word = ''hwload'' then HWLOAD else HWSAVE)\<rparr>"
  have eq: "readcmd_word cfg ext word v w = hw_io ext ?v w"
    by (rule hwload_word[OF assms])
  have a: "usbdelay (kb w') = usbdelay (kb w)"
    if "hw_io ext ?v w = Some (Inr (v', w'))" for v' w'
    using hw_io_restored[OF that] by simp
  have b: "\<exists>rc t. calls (final_world r)
               = calls w @ (Vt_do_io (if word = ''hwload'' then HWLOAD else HWSAVE)
                               (mode v) (notifynumber v),
                            (kb w)\<lparr>usbdelay := max 10 (usbdelay (kb w))\<rparr>, rc) # t"
    if "hw_io ext ?v w = Some r" for r
    using hw_io_first_call[OF that] by simp
  have c: "list_all raised (drop (length (calls w)) (calls (final_world r)))
           \<and> (\<forall>w'. r = Inl w' \<longrightarrow> usbdelay (kb w') = max 10 (usbdelay (kb w)))"
    if "hw_io ext ?v w = Some r" "\<forall>c d. usbdelay (snd (ext c d)) = usbdelay d" for r
    using hw_io_raised[OF that(1)] that(2) by auto
  show ?thesis
    unfolding eq using a b c by blast
qed

theorem hwload_usbdelay_witness:
  "readcmd_word demo_platform ext_ok ''hwload'' demo_vars demo_world
     = Some (Inr (demo_vars\<lparr>command := HWLOAD\<rparr>,
          \<lparr>kb = demo_device,
           calls = [(Vt_do_io HWLOAD 0 0, demo_device\<lparr>usbdelay := 10\<rparr>, 0),
                    (Vt_updatergb 1, demo_device\<lparr>usbdelay := 10\<rparr>, 0)]\<rparr>))
   \<and> usbdelay demo_device = 5
   \<and> list_all raised [(Vt_do_io HWLOAD 0 0, demo_device\<lparr>usbdelay := 10\<rparr>, 0),
                        (Vt_updatergb 1, demo_device\<lparr>usbdelay := 10\<rparr>, 0)]
   \<and> readcmd_word demo_platform ext_io_fails ''hwload'' demo_vars demo_world
     = Some (Inl \<lparr>kb = demo_device\<lparr>usbdelay := 10\<rparr>,
                  calls = [(Vt_do_io HWLOAD 0 0, demo_device\<lparr>usbdelay := 10\<rparr>, 1),
                           (Usb_tryreset, demo_device\<lparr>usbdelay := 10\<rparr>, 1)]\<rparr>)
   \<and> usbdelay (demo_device\<lparr>usbdelay := 10\<rparr>) = max 10 (usbdelay demo_device)"
proof -
  have h: "''hwload'' = ''hwload'' \<or> ''hwload'' = ''hwsave''" "active (kb demo_world)"
      "\<not> needs_fw_update (kb demo_world)"
    by (simp_all add: demo_world_def demo_device_def)
  have ud: "usbdelay demo_device = 5"
    by (simp add: demo_device_def)
  have frame: "\<forall>c d. usbdelay (snd (ext_ok c d)) = usbdelay d"
    by (simp add: ext_ok_def)
  have frame': "\<forall>c d. usbdelay (snd (ext_io_fails c d)) = usbdelay d"
    by (simp add: ext_io_fails_def split: call.splits)
  have run: "readcmd_word demo_platform ext_ok ''hwload'' demo_vars demo_world
     = Some (Inr (demo_vars\<lparr>command := HWLOAD\<rparr>,
          \<lparr>kb = demo_device,
           calls = [(Vt_do_io HWLOAD 0 0, demo_device\<lparr>usbdelay := 10\<rparr>, 0),
                    (Vt_updatergb 1, demo_device\<lparr>usbdelay := 10\<rparr>, 0)]\<rparr>))"
    by (subst hwload_word[OF h])
       (simp add: hw_io_def and_then_def try_ok ext_ok_def invoke_def
          demo_world_def demo_vars_def demo_device_def)
  have run': "readcmd_word demo_platform ext_io_fails ''hwload'' demo_vars demo_world
     = Some (Inl \<lparr>kb = demo_device\<lparr>usbdelay := 10\<rparr>,
                  calls = [(Vt_do_io HWLOAD 0 0, demo_device\<lparr>usbdelay := 10\<rparr>, 1),
                           (Usb_tryreset, demo_device\<lparr>usbdelay := 10\<rparr>, 1)]\<rparr>)"
    by (subst hwload_word[OF h])
       (simp add: hw_io_def and_then_def try_abort ext_io_fails_def invoke_def
          demo_world_def demo_vars_def demo_device_def)
  from hwload_usbdelay[OF h, where cfg = demo_platform and ext = ext_ok and v = demo_vars]
       hwload_usbdelay[OF h, where cfg = demo_platform and ext = ext_io_fails and v = demo_vars]
       frame frame' run run'
  show ?thesis
    by (simp add: final_world_def demo_world_def ud raised_def)
qed

text \<open>
  C5, at the word \<open>@-1\<close>: the selector is accepted, since only \<open>newnotify < OUTFIFO_MAX\<close>
  is tested, and \<open>get\<close> is then called on channel \<open>-1\<close>.
\<close>

theorem negative_channel_selected:
  "select_channel demo_platform ''@-1'' = Some (- 1)
   \<and> result_calls (readcmd demo_platform ext_ok \<lparr>tv_sec = 1, tv_nsec = 0\<rparr> ''@-1 get :mode''
        demo_world)
       = Some (0, [Vt_get 0 (- 1) 0 '':mode'', Vt_updatergb 0, Vt_updatedpi 0])"
  by code_simp

text \<open>
  C4: whenever \<open>readcmd\<close> returns, the log of the line keeps the retry discipline. Every
  failed call of \<open>active\<close>, \<open>idle\<close>, \<open>do_io\<close>, \<open>pollrate\<close>, \<open>updatergb\<close> and
  \<open>updatedpi\<close> is followed by a reset; after a reset that succeeded the same call is made
  again; a reset that failed, and a firmware update that failed, is the last call of the line,
  and \<open>readcmd\<close> returns 1 exactly then and 0 otherwise. A harness whose action and reset
  both fail returns at once, and the firmware update is one call, not retried.
\<close>

theorem retry_discipline:
  assumes "readcmd cfg ext now line w = Some (rc, w')" and "phase_of (calls w) = Ready"
  shows "((rc = 0 \<and> phase_of (calls w') = Ready) \<or> (rc = 1 \<and> phase_of (calls w') = Aborted))
       \<and> (fst (ext a (kb x)) \<noteq> 0 \<and> fst (ext Usb_tryreset (snd (ext a (kb x)))) \<noteq> 0 \<longrightarrow>
            try_with_reset ext a x
              = Some (Inl (snd (invoke ext Usb_tryreset (snd (invoke ext a x))))))
       \<and> (command v = FWUPDATE \<and> map_of cmd_strings word = None
            \<and> select_channel cfg word = None \<and> active (kb x) \<longrightarrow>
            readcmd_word cfg ext word v x =
              (if fst (ext (Vt_fwupdate (mode v) (notifynumber v) word) (kb x)) \<noteq> 0
               then Some (Inl (perform ext (Vt_fwupdate (mode v) (notifynumber v) word) x))
               else Some (Inr (v, perform ext (Vt_fwupdate (mode v) (notifynumber v) word) x))))"
proof -
  let ?v0 = "\<lparr>command = NONE, notifynumber = 0, mode = currentmode (profile (kb w))\<rparr>"
  have rdy: "ready w" using assms(2) by (simp add: ready_def)
  have main: "(rc = 0 \<and> phase_of (calls w') = Ready) \<or> (rc = 1 \<and> phase_of (calls w') = Aborted)"
  proof (cases "readcmd_words cfg ext (strtok_words line) ?v0 w")
    case None
    with assms(1) show ?thesis by (simp add: readcmd_def)
  next
    case (Some r)
    from readcmd_words_settled[OF Some rdy] have s: "settled r" .
    show ?thesis
    proof (cases r)
      case (Inl w1)
      with Some assms(1) s show ?thesis by (auto simp: readcmd_def settled_def)
    next
      case (Inr vw)
      obtain v1 w1 where vw: "vw = (v1, w1)" by (cases vw)
      with Inr Some assms(1) have "readcmd_finish cfg ext now (command v1) w1 = Some (rc, w')"
        by (simp add: readcmd_def)
      moreover from s Inr vw have "ready w1" by (simp add: settled_def)
      ultimately show ?thesis by (rule readcmd_finish_phase)
    qed
  qed
  show ?thesis
    using main try_abort[of ext a x] fwupdate_word[of v word cfg x ext] by blast
qed


theorem retry_discipline_witness:
  "result_log (readcmd demo_platform ext_idle_retry \<lparr>tv_sec = 1, tv_nsec = 0\<rparr> ''idle'' demo_world)
     = Some (0, [(Vt_idle 0 0, 1), (Usb_tryreset, 0), (Vt_idle 0 0, 0),
                 (Vt_updatergb 0, 0), (Vt_updatedpi 0, 0)])
   \<and> result_phase (readcmd demo_platform ext_idle_retry \<lparr>tv_sec = 1, tv_nsec = 0\<rparr> ''idle''
        demo_world) = Some (0, Ready)
   \<and> result_log (readcmd demo_platform ext_io_fails \<lparr>tv_sec = 1, tv_nsec = 0\<rparr> ''hwload''
        demo_world) = Some (1, [(Vt_do_io HWLOAD 0 0, 1), (Usb_tryreset, 1)])
   \<and> result_phase (readcmd demo_platform ext_io_fails \<lparr>tv_sec = 1, tv_nsec = 0\<rparr> ''hwload''
        demo_world) = Some (1, Aborted)
   \<and> try_with_reset ext_io_fails (Vt_do_io HWLOAD 0 0) demo_world
       = Some (Inl (snd (invoke ext_io_fails Usb_tryreset
                      (snd (invoke ext_io_fails (Vt_do_io HWLOAD 0 0) demo_world)))))
   \<and> result_log (readcmd demo_platform ext_fw_fails \<lparr>tv_sec = 1, tv_nsec = 0\<rparr>
        ''fwupdate /tmp/blob'' demo_world) = Some (1, [(Vt_fwupdate 0 0 ''/tmp/blob'', 1)])
   \<and> readcmd_word demo_platform ext_fw_fails ''/tmp/blob'' (demo_vars\<lparr>command := FWUPDATE\<rparr>)
        demo_world
       = Some (Inl (perform ext_fw_fails (Vt_fwupdate 0 0 ''/tmp/blob'') demo_world))"
proof -
  let ?t = "\<lparr>tv_sec = 1, tv_nsec = 0\<rparr>"
  have start: "phase_of (calls demo_world) = Ready"
    by (simp add: demo_world_def phase_of_def)
  have l1: "result_log (readcmd demo_platform ext_idle_retry ?t ''idle'' demo_world)
     = Some (0, [(Vt_idle 0 0, 1), (Usb_tryreset, 0), (Vt_idle 0 0, 0),
                 (Vt_updatergb 0, 0), (Vt_updatedpi 0, 0)])"
    by code_simp
  have l2: "result_log (readcmd demo_platform ext_io_fails ?t ''hwload'' demo_world)
     = Some (1, [(Vt_do_io HWLOAD 0 0, 1), (Usb_tryreset, 1)])"
    by code_simp
  have l3: "result_log (readcmd demo_platform ext_fw_fails ?t ''fwupdate /tmp/blob'' demo_world)
     = Some (1, [(Vt_fwupdate 0 0 ''/tmp/blob'', 1)])"
    by code_simp
  from l1 obtain w1 where r1: "readcmd demo_platform ext_idle_retry ?t ''idle'' demo_world
      = Some (0, w1)"
    by (auto simp: result_log_def)
  from l2 obtain w2 where r2: "readcmd demo_platform ext_io_fails ?t ''hwload'' demo_world
      = Some (1, w2)"
    by (auto simp: result_log_def)
  from l3 obtain w3 where r3: "readcmd demo_platform ext_fw_fails ?t ''fwupdate /tmp/blob''
      demo_world = Some (1, w3)"
    by (auto simp: result_log_def)
  have h2: "fst (ext_io_fails (Vt_do_io HWLOAD 0 0) (kb demo_world)) \<noteq> 0
      \<and> fst (ext_io_fails Usb_tryreset (snd (ext_io_fails (Vt_do_io HWLOAD 0 0) (kb demo_world))))
          \<noteq> 0"
    by (simp add: ext_io_fails_def)
  have h3: "command (demo_vars\<lparr>command := FWUPDATE\<rparr>) = FWUPDATE
      \<and> map_of cmd_strings ''/tmp/blob'' = None
      \<and> select_channel demo_platform ''/tmp/blob'' = None \<and> active (kb demo_world)"
    by code_simp
  have f3: "fst (ext_fw_fails (Vt_fwupdate 0 0 ''/tmp/blob'') (kb demo_world)) \<noteq> 0"
    by (simp add: ext_fw_fails_def)
  from retry_discipline[OF r1 start] have p1: "phase_of (calls w1) = Ready"
    by simp
  from retry_discipline[OF r2 start, where a = "Vt_do_io HWLOAD 0 0" and x = demo_world] h2
  have p2: "phase_of (calls w2) = Aborted"
    and t2: "try_with_reset ext_io_fails (Vt_do_io HWLOAD 0 0) demo_world
       = Some (Inl (snd (invoke ext_io_fails Usb_tryreset
                      (snd (invoke ext_io_fails (Vt_do_io HWLOAD 0 0) demo_world)))))"
    by simp_all
  from retry_discipline[OF r3 start, where v = "demo_vars\<lparr>command := FWUPDATE\<rparr>"
      and word = "''/tmp/blob''" and x = demo_world] h3 f3
  have t3: "readcmd_word demo_platform ext_fw_fails ''/tmp/blob'' (demo_vars\<lparr>command := FWUPDATE\<rparr>)
        demo_world
       = Some (Inl (perform ext_fw_fails (Vt_fwupdate 0 0 ''/tmp/blob'') demo_world))"
    by (simp add: demo_vars_def)
  show ?thesis
    using l1 l2 l3 t2 t3 by (simp add: result_phase_def r1 r2 p1 p2)
qed

text \<open>
  C2, as the spec has it, fails: the line \<open>rgb ff0000 mode 1\<close> contains an \<open>RGB\<close> verb
  and is read one microsecond after the last flush, inside the window; it is flushed without
  a sleep, and \<open>last_rgb\<close> is left as it was.
\<close>

theorem rgb_rate_limit_counterexample:
  "timespec_diff_ns \<lparr>tv_sec = 0, tv_nsec = 1000\<rparr> (last_rgb (kb demo_world)) = 1000
   \<and> result_calls (readcmd demo_platform ext_ok \<lparr>tv_sec = 0, tv_nsec = 1000\<rparr>
        ''rgb ff0000 mode 1'' demo_world)
       = Some (0, [Vt_rgb 0 (- 1) 0 ''ff0000'', Vt_rgb 0 (- 1) 1 ''ff0000'',
                   Vt_rgb 0 (- 1) 2 ''ff0000'', Vt_updatergb 0, Vt_updatedpi 0])
   \<and> result_last_rgb (readcmd demo_platform ext_ok \<lparr>tv_sec = 0, tv_nsec = 1000\<rparr>
        ''rgb ff0000 mode 1'' demo_world) = Some (0, 0, 0)"
  by code_simp

text \<open>
  C2, amended: on a line that reaches the flush with the firmware sound, the limiter runs
  exactly when the last verb word of the line is \<open>rgb\<close> (the value of \<open>command\<close> after
  the words). It then runs before \<open>updatergb(0)\<close> is first called: with
  \<open>0 < diff < HERTZ_LIM\<close> it sleeps \<open>HERTZ_LIM - diff\<close> and sets \<open>last_rgb\<close> to
  \<open>now\<close> plus the sleep, otherwise it sets \<open>last_rgb\<close> to \<open>now\<close> without sleeping;
  and when the difference is positive and has not overflowed, the new \<open>last_rgb\<close> is at
  least \<open>HERTZ_LIM\<close> after the old one. With another last verb, \<open>updatergb(0)\<close> is called
  on the state as the words left it.
\<close>

theorem rgb_rate_limit:
  assumes "readcmd_words cfg ext (strtok_words line)
             \<lparr>command = NONE, notifynumber = 0, mode = currentmode (profile (kb w))\<rparr> w
           = Some (Inr (v1, w1))"
    and "\<not> needs_fw_update (kb w1)"
    and "readcmd cfg ext now line w = Some (rc, w')"
  shows "command v1 = last_verb cfg (strtok_words line) NONE
       \<and> (command v1 = RGB \<longrightarrow>
            (\<exists>rcu t. calls w' = calls (rate_limit cfg now w1)
                        @ (Vt_updatergb 0, kb (rate_limit cfg now w1), rcu) # t))
       \<and> (command v1 \<noteq> RGB \<longrightarrow>
            (\<exists>rcu t. calls w' = calls w1 @ (Vt_updatergb 0, kb w1, rcu) # t))
       \<and> (0 < timespec_diff_ns now (last_rgb (kb w1))
            \<and> timespec_diff_ns now (last_rgb (kb w1)) < HERTZ_LIM \<longrightarrow>
          kb (rate_limit cfg now w1)
            = (kb w1)\<lparr>last_rgb := now\<lparr>tv_nsec := tv_nsec now
                 + (HERTZ_LIM - timespec_diff_ns now (last_rgb (kb w1)))\<rparr>\<rparr>
          \<and> calls (rate_limit cfg now w1)
             = calls w1 @ (if NDEBUG cfg then []
                           else [(Ckb_warn (timespec_diff_ns now (last_rgb (kb w1))), kb w1, 0)])
                 @ [(Clock_nanosleep (HERTZ_LIM - timespec_diff_ns now (last_rgb (kb w1))),
                     kb w1, 0)])
       \<and> (\<not> (0 < timespec_diff_ns now (last_rgb (kb w1))
              \<and> timespec_diff_ns now (last_rgb (kb w1)) < HERTZ_LIM) \<longrightarrow>
          rate_limit cfg now w1 = w1\<lparr>kb := (kb w1)\<lparr>last_rgb := now\<rparr>\<rparr>)
       \<and> (0 < true_diff now (last_rgb (kb w1))
            \<and> timespec_diff_ns now (last_rgb (kb w1)) = true_diff now (last_rgb (kb w1)) \<longrightarrow>
          HERTZ_LIM \<le> true_diff (last_rgb (kb (rate_limit cfg now w1))) (last_rgb (kb w1)))"
proof -
  from assms(1,3) have fin: "readcmd_finish cfg ext now (command v1) w1 = Some (rc, w')"
    by (simp add: readcmd_def)
  from readcmd_words_command[OF assms(1)]
  have a: "command v1 = last_verb cfg (strtok_words line) NONE" by simp
  from finish_first_call[OF fin assms(2)]
  have b: "\<exists>rcu t. calls w' = calls (if command v1 = RGB then rate_limit cfg now w1 else w1)
            @ (Vt_updatergb 0, kb (if command v1 = RGB then rate_limit cfg now w1 else w1), rcu) # t" .
  show ?thesis
    using a b rate_limit_window[of now w1 cfg] rate_limit_outside[of now w1 cfg]
      rate_limit_spacing[of now w1 cfg]
    by (cases "command v1 = RGB") simp_all
qed

theorem rgb_rate_limit_witness:
  "last_verb demo_platform (strtok_words ''rgb ff0000'') NONE = RGB
   \<and> last_verb demo_platform (strtok_words ''rgb ff0000 mode 1'') NONE = MODE
   \<and> result_calls (readcmd demo_platform ext_ok \<lparr>tv_sec = 0, tv_nsec = 1000\<rparr> ''rgb ff0000''
        demo_world)
       = Some (0, [Vt_rgb 0 (- 1) 0 ''ff0000'', Vt_rgb 0 (- 1) 1 ''ff0000'',
                   Vt_rgb 0 (- 1) 2 ''ff0000'', Clock_nanosleep 16527925,
                   Vt_updatergb 0, Vt_updatedpi 0])
   \<and> result_last_rgb (readcmd demo_platform ext_ok \<lparr>tv_sec = 0, tv_nsec = 1000\<rparr> ''rgb ff0000''
        demo_world) = Some (0, 0, 16528925)
   \<and> result_calls (readcmd demo_platform ext_ok \<lparr>tv_sec = 1, tv_nsec = 0\<rparr> ''rgb ff0000''
        demo_world)
       = Some (0, [Vt_rgb 0 (- 1) 0 ''ff0000'', Vt_rgb 0 (- 1) 1 ''ff0000'',
                   Vt_rgb 0 (- 1) 2 ''ff0000'', Vt_updatergb 0, Vt_updatedpi 0])
   \<and> result_last_rgb (readcmd demo_platform ext_ok \<lparr>tv_sec = 1, tv_nsec = 0\<rparr> ''rgb ff0000''
        demo_world) = Some (0, 1, 0)"
proof -
  let ?v0 = "\<lparr>command = NONE, notifynumber = 0, mode = currentmode (profile (kb demo_world))\<rparr>"
  let ?in = "\<lparr>tv_sec = 0, tv_nsec = 1000\<rparr>"
  let ?out = "\<lparr>tv_sec = 1, tv_nsec = 0\<rparr>"
  have c1: "result_calls (readcmd demo_platform ext_ok ?in ''rgb ff0000'' demo_world)
       = Some (0, [Vt_rgb 0 (- 1) 0 ''ff0000'', Vt_rgb 0 (- 1) 1 ''ff0000'',
                   Vt_rgb 0 (- 1) 2 ''ff0000'', Clock_nanosleep 16527925,
                   Vt_updatergb 0, Vt_updatedpi 0])"
    by code_simp
  have c2: "result_calls (readcmd demo_platform ext_ok ?out ''rgb ff0000'' demo_world)
       = Some (0, [Vt_rgb 0 (- 1) 0 ''ff0000'', Vt_rgb 0 (- 1) 1 ''ff0000'',
                   Vt_rgb 0 (- 1) 2 ''ff0000'', Vt_updatergb 0, Vt_updatedpi 0])"
    by code_simp
  have c3: "result_calls (readcmd demo_platform ext_ok ?in ''rgb ff0000 mode 1'' demo_world)
       = Some (0, [Vt_rgb 0 (- 1) 0 ''ff0000'', Vt_rgb 0 (- 1) 1 ''ff0000'',
                   Vt_rgb 0 (- 1) 2 ''ff0000'', Vt_updatergb 0, Vt_updatedpi 0])"
    by code_simp
  have l1: "result_last_rgb (readcmd demo_platform ext_ok ?in ''rgb ff0000'' demo_world)
       = Some (0, 0, 16528925)"
    by code_simp
  have l2: "result_last_rgb (readcmd demo_platform ext_ok ?out ''rgb ff0000'' demo_world)
       = Some (0, 1, 0)"
    by code_simp
  have f1: "loop_facts (readcmd_words demo_platform ext_ok (strtok_words ''rgb ff0000'') ?v0
              demo_world) = Some (RGB, True, False, 0, 0)"
    by code_simp
  have f3: "loop_facts (readcmd_words demo_platform ext_ok (strtok_words ''rgb ff0000 mode 1'') ?v0
              demo_world) = Some (MODE, True, False, 0, 0)"
    by code_simp
  from f1 obtain v1 w1 where
    r1: "readcmd_words demo_platform ext_ok (strtok_words ''rgb ff0000'') ?v0 demo_world
           = Some (Inr (v1, w1))"
    and k1: "command v1 = RGB" "needs_fw_update (kb w1) = False"
      "tv_sec (last_rgb (kb w1)) = 0" "tv_nsec (last_rgb (kb w1)) = 0"
    by (rule loop_facts_run)
  from f3 obtain v3 w3 where
    r3: "readcmd_words demo_platform ext_ok (strtok_words ''rgb ff0000 mode 1'') ?v0 demo_world
           = Some (Inr (v3, w3))"
    and k3: "command v3 = MODE" "needs_fw_update (kb w3) = False"
    by (rule loop_facts_run)
  from c1 obtain w1' where
    e1: "readcmd demo_platform ext_ok ?in ''rgb ff0000'' demo_world = Some (0, w1')"
    by (rule result_calls_run)
  from c2 obtain w2' where
    e2: "readcmd demo_platform ext_ok ?out ''rgb ff0000'' demo_world = Some (0, w2')"
    by (rule result_calls_run)
  from c3 obtain w3' where
    e3: "readcmd demo_platform ext_ok ?in ''rgb ff0000 mode 1'' demo_world = Some (0, w3')"
    by (rule result_calls_run)
  have nf1: "\<not> needs_fw_update (kb w1)" and nf3: "\<not> needs_fw_update (kb w3)"
    using k1 k3 by simp_all
  have lr: "last_rgb (kb w1) = \<lparr>tv_sec = 0, tv_nsec = 0\<rparr>"
    using k1 by (cases "last_rgb (kb w1)") simp
  have d_in: "timespec_diff_ns ?in (last_rgb (kb w1)) = 1000"
    and d_out: "timespec_diff_ns ?out (last_rgb (kb w1)) = 1000000000"
    and t_in: "true_diff ?in (last_rgb (kb w1)) = 1000"
    by (simp_all add: lr timespec_diff_ns_def long_wrap_def LONG_MAX_def true_diff_def)
  from rgb_rate_limit[OF r1 nf1 e1] k1 d_in t_in
  have a1: "last_verb demo_platform (strtok_words ''rgb ff0000'') NONE = RGB"
    by (simp add: HERTZ_LIM_def)
  from rgb_rate_limit[OF r1 nf1 e2] d_out
  have a2: "rate_limit demo_platform ?out w1 = w1\<lparr>kb := (kb w1)\<lparr>last_rgb := ?out\<rparr>\<rparr>"
    by (simp add: HERTZ_LIM_def)
  from rgb_rate_limit[OF r3 nf3 e3] k3
  have a3: "last_verb demo_platform (strtok_words ''rgb ff0000 mode 1'') NONE = MODE"
    by simp
  from a1 a3 c1 c2 l1 l2 show ?thesis by simp
qed

text \<open>
  C6, as the spec has it, fails: on the line \<open>active idle\<close>, read by an inactive device
  whose \<open>active\<close> operation activates it, the verb \<open>idle\<close> is not dropped; it calls
  \<open>vt->idle\<close>.
\<close>

theorem inactive_gate_counterexample:
  "active (kb idle_world) = False \<and> needs_fw_update (kb idle_world) = False
   \<and> result_calls (readcmd demo_platform ext_activate \<lparr>tv_sec = 1, tv_nsec = 0\<rparr> ''active idle''
        idle_world)
       = Some (0, [Vt_active 0 0, Vt_idle 0 0, Vt_updatergb 0, Vt_updatedpi 0])"
  by code_simp

text \<open>
  C6, amended: the gate is read at each word. For a word read while the device is inactive
  (firmware sound), \<open>ACTIVE\<close> calls \<open>vt->active\<close> through the harness; a verb that is
  neither \<open>ACTIVE\<close> nor of the always-available family makes no call and leaves the state
  as it is; and whatever the word, only the notification nodes, \<open>get\<close>, \<open>reset\<close>,
  \<open>active\<close> and \<open>usb_tryreset\<close> are called. So when these calls leave the device
  inactive, nothing else is called by the words of the line, and the device is inactive after
  them.
\<close>

theorem inactive_gate:
  assumes "\<not> active (kb w)" and "\<not> needs_fw_update (kb w)"
  shows "(fst (match_verb cfg word (command v)) = ACTIVE \<and> select_channel cfg word = None
            \<longrightarrow> readcmd_word cfg ext word v w
                  = and_then (try_with_reset ext (Vt_active (mode v) (notifynumber v)) w)
                      (\<lambda>w1. Some (Inr (v\<lparr>command := ACTIVE\<rparr>, w1))))
       \<and> (\<not> always_family (fst (match_verb cfg word (command v)))
            \<and> fst (match_verb cfg word (command v)) \<noteq> ACTIVE
            \<longrightarrow> (\<exists>v'. readcmd_word cfg ext word v w = Some (Inr (v', w))))
       \<and> (\<forall>r. readcmd_word cfg ext word v w = Some r \<longrightarrow>
            (\<exists>t. calls (final_world r) = calls w @ t
                 \<and> list_all (\<lambda>e. inactive_call (fst e)) t))
       \<and> ((\<forall>x d. inactive_call x \<and> dormant d \<longrightarrow> dormant (snd (ext x d))) \<longrightarrow>
          (\<forall>ws r. readcmd_words cfg ext ws v w = Some r \<longrightarrow>
             (\<exists>t. calls (final_world r) = calls w @ t
                  \<and> list_all (\<lambda>e. inactive_call (fst e)) t)
             \<and> dormant (kb (final_world r))))"
proof -
  have d: "dormant (kb w)" using assms by (simp add: dormant_def)
  have a1: "readcmd_word cfg ext word v w
                  = and_then (try_with_reset ext (Vt_active (mode v) (notifynumber v)) w)
                      (\<lambda>w1. Some (Inr (v\<lparr>command := ACTIVE\<rparr>, w1)))"
    if "fst (match_verb cfg word (command v)) = ACTIVE" "select_channel cfg word = None"
  proof -
    define nl where "nl = snd (match_verb cfg word (command v))"
    have m: "match_verb cfg word (command v) = (ACTIVE, nl)"
      using that(1) by (simp add: nl_def prod_eq_iff)
    have "\<not> nl" using m
      by (auto simp: match_verb_def is_action_def Let_def split: option.splits if_splits)
    with m that(2) assms show ?thesis
      by (simp add: readcmd_word_def rejected_def fw_gate_def always_cmd_def)
  qed
  have a2: "\<exists>v'. readcmd_word cfg ext word v w = Some (Inr (v', w))"
    if "\<not> always_family (fst (match_verb cfg word (command v)))"
       "fst (match_verb cfg word (command v)) \<noteq> ACTIVE"
    using assms
  proof (cases rule: inactive_word_cases[where cfg = cfg and ext = ext and word = word and v = v])
    case (skip v')
    then show ?thesis by blast
  next
    case (always v' w')
    from always_cmd_family[OF always(2)] that(1) show ?thesis by simp
  next
    case activate
    with that(2) show ?thesis by simp
  qed
  have a3: "\<exists>t. calls (final_world r) = calls w @ t \<and> list_all (\<lambda>e. inactive_call (fst e)) t"
    if "readcmd_word cfg ext word v w = Some r" for r
    using inactive_word[OF d that] by blast
  have a4: "(\<exists>t. calls (final_world r) = calls w @ t
                  \<and> list_all (\<lambda>e. inactive_call (fst e)) t)
             \<and> dormant (kb (final_world r))"
    if "\<forall>x d. inactive_call x \<and> dormant d \<longrightarrow> dormant (snd (ext x d))"
       "readcmd_words cfg ext ws v w = Some r" for ws r
    by (rule inactive_words[OF that(1) d that(2)])
  show ?thesis
    using a1 a2 a3 a4 by blast
qed

theorem inactive_gate_witness:
  "readcmd_word demo_platform ext_ok ''active'' demo_vars idle_world
     = Some (Inr (demo_vars\<lparr>command := ACTIVE\<rparr>, snd (invoke ext_ok (Vt_active 0 0) idle_world)))
   \<and> map_option final_world (readcmd_word demo_platform ext_ok ''idle'' demo_vars idle_world)
       = Some idle_world
   \<and> result_calls (readcmd demo_platform ext_ok \<lparr>tv_sec = 1, tv_nsec = 0\<rparr>
        ''rgb ff0000 active idle name foo get :mode'' idle_world)
       = Some (0, [Vt_active 0 0, Vt_get 0 0 0 '':mode'', Vt_updatergb 0, Vt_updatedpi 0])
   \<and> loop_facts (readcmd_words demo_platform ext_ok
        (strtok_words ''rgb ff0000 active idle name foo get :mode'') demo_vars idle_world)
       = Some (GET, False, False, 0, 0)"
proof -
  let ?ws = "strtok_words ''rgb ff0000 active idle name foo get :mode''"
  have h: "\<not> active (kb idle_world)" "\<not> needs_fw_update (kb idle_world)"
    by (simp_all add: idle_world_def demo_device_def)
  have m1: "fst (match_verb demo_platform ''active'' (command demo_vars)) = ACTIVE
            \<and> select_channel demo_platform ''active'' = None"
    by code_simp
  have m2: "\<not> always_family (fst (match_verb demo_platform ''idle'' (command demo_vars)))
            \<and> fst (match_verb demo_platform ''idle'' (command demo_vars)) \<noteq> ACTIVE"
    by code_simp
  have frame: "\<forall>x d. inactive_call x \<and> dormant d \<longrightarrow> dormant (snd (ext_ok x d))"
    by (simp add: ext_ok_def)
  have c: "result_calls (readcmd demo_platform ext_ok \<lparr>tv_sec = 1, tv_nsec = 0\<rparr>
        ''rgb ff0000 active idle name foo get :mode'' idle_world)
       = Some (0, [Vt_active 0 0, Vt_get 0 0 0 '':mode'', Vt_updatergb 0, Vt_updatedpi 0])"
    by code_simp
  have f: "loop_facts (readcmd_words demo_platform ext_ok ?ws demo_vars idle_world)
       = Some (GET, False, False, 0, 0)"
    by code_simp
  from f obtain v1 w1 where
    run: "readcmd_words demo_platform ext_ok ?ws demo_vars idle_world = Some (Inr (v1, w1))"
    by (rule loop_facts_run)
  note T1 = inactive_gate[OF h, where cfg = demo_platform and ext = ext_ok and v = demo_vars
      and word = "''active''"]
  note T2 = inactive_gate[OF h, where cfg = demo_platform and ext = ext_ok and v = demo_vars
      and word = "''idle''"]
  from T1 m1 have e1: "readcmd_word demo_platform ext_ok ''active'' demo_vars idle_world
      = and_then (try_with_reset ext_ok (Vt_active (mode demo_vars) (notifynumber demo_vars))
                    idle_world)
          (\<lambda>w1. Some (Inr (demo_vars\<lparr>command := ACTIVE\<rparr>, w1)))"
    by blast
  have ok: "try_with_reset ext_ok (Vt_active 0 0) idle_world
      = Some (Inr (snd (invoke ext_ok (Vt_active 0 0) idle_world)))"
    by (rule try_ok) (simp add: ext_ok_def)
  from T2 m2 obtain v' where
    e2: "readcmd_word demo_platform ext_ok ''idle'' demo_vars idle_world = Some (Inr (v', idle_world))"
    by blast
  from T1 frame run have e4: "dormant (kb (final_world (Inr (v1, w1))))"
    by blast
  from e1 ok e2 c f show ?thesis
    by (simp add: and_then_def demo_vars_def final_world_def)
qed

text \<open>
  C3, as the spec has it, fails twice. With a firmware update that succeeds and clears the
  flag, the line \<open>fwupdate /tmp/blob idle\<close>, entered with the flag set, goes on to call
  \<open>vt->idle\<close> and to flush. And in a debug build the line \<open>rgb\<close> on a device with the
  flag set makes no call and yet clears the mark in \<open>encounteredleds\<close>.
\<close>

theorem bricked_gate_counterexample:
  "needs_fw_update (kb bricked_world) = True
   \<and> result_calls (readcmd demo_platform ext_fw_repairs \<lparr>tv_sec = 1, tv_nsec = 0\<rparr>
        ''fwupdate /tmp/blob idle'' bricked_world)
       = Some (0, [Vt_fwupdate 0 0 ''/tmp/blob'', Vt_idle 0 0, Vt_updatergb 0, Vt_updatedpi 0])
   \<and> needs_fw_update (kb marked_world) = True
   \<and> (1 \<in> encounteredleds (kb marked_world)) = True
   \<and> result_calls (readcmd debug_platform ext_ok \<lparr>tv_sec = 1, tv_nsec = 0\<rparr> ''rgb''
        marked_world) = Some (0, [])
   \<and> result_led 1 (readcmd debug_platform ext_ok \<lparr>tv_sec = 1, tv_nsec = 0\<rparr> ''rgb''
        marked_world) = Some (0, False)"
  by code_simp

text \<open>
  C3, amended: the flag is read before each word and at the end of the line. On a line where
  it is set each time it is read, whatever the operations of the device are, \<open>readcmd\<close>
  returns; the calls it makes are those of the notification nodes, of \<open>reset\<close> and of
  \<open>fwupdate\<close>, each made with the flag set, so there is no flush; the device is what these
  calls made of it, except that a debug build that returns 0 on a line whose last verb word is
  \<open>rgb\<close> has cleared \<open>encounteredleds\<close>; and the flag is set when 0 is returned.
\<close>

theorem bricked_gate:
  assumes "flag_stays cfg ext (strtok_words line)
             \<lparr>command = NONE, notifynumber = 0, mode = currentmode (profile (kb w))\<rparr> w"
  shows "\<exists>rc w' t. readcmd cfg ext now line w = Some (rc, w')
           \<and> (rc = 0 \<or> rc = 1)
           \<and> calls w' = calls w @ t
           \<and> list_all (\<lambda>e. bricked_call (fst e) \<and> needs_fw_update (fst (snd e))) t
           \<and> (rc = 0 \<longrightarrow> needs_fw_update (kb w'))
           \<and> kb w' = (if \<not> NDEBUG cfg \<and> rc = 0
                           \<and> last_verb cfg (strtok_words line) NONE = RGB
                        then (replay ext (kb w) t)\<lparr>encounteredleds := {}\<rparr>
                        else replay ext (kb w) t)"
proof -
  let ?v0 = "\<lparr>command = NONE, notifynumber = 0, mode = currentmode (profile (kb w))\<rparr>"
  from bricked_words[OF assms]
  obtain r t where
    run: "readcmd_words cfg ext (strtok_words line) ?v0 w = Some r"
    and t: "calls (final_world r) = calls w @ t"
      "list_all (\<lambda>e. bricked_call (fst e) \<and> needs_fw_update (fst (snd e))) t"
      "kb (final_world r) = replay ext (kb w) t"
    and fl: "\<forall>v1 w1. r = Inr (v1, w1) \<longrightarrow> needs_fw_update (kb w1)"
    by blast
  show ?thesis
  proof (cases r)
    case (Inl w1)
    with run have "readcmd cfg ext now line w = Some (1, w1)" by (simp add: readcmd_def)
    with Inl t show ?thesis by (auto simp: final_world_def)
  next
    case (Inr vw)
    obtain v1 w1 where vw: "vw = (v1, w1)" by (cases vw)
    from readcmd_words_command[OF run[unfolded Inr vw]]
    have lc: "command v1 = last_verb cfg (strtok_words line) NONE" by simp
    from t Inr vw have k: "calls w1 = calls w @ t" "kb w1 = replay ext (kb w) t"
      by (simp_all add: final_world_def)
    from fl Inr vw have n1: "needs_fw_update (kb w1)" by simp
    from run Inr vw n1
    have e: "readcmd cfg ext now line w = Some (0, clear_leds cfg (command v1) w1)"
      by (simp add: readcmd_def readcmd_finish_def)
    show ?thesis
      using e k t(2) n1 lc by (auto simp: clear_leds_def)
  qed
qed

theorem bricked_gate_witness:
  "flag_stays demo_platform ext_fw_repairs (strtok_words ''rgb ff0000 idle get :mode'')
      \<lparr>command = NONE, notifynumber = 0, mode = currentmode (profile (kb bricked_world))\<rparr>
      bricked_world
   \<and> readcmd demo_platform ext_fw_repairs \<lparr>tv_sec = 1, tv_nsec = 0\<rparr>
        ''rgb ff0000 idle get :mode'' bricked_world = Some (0, bricked_world)
   \<and> flag_stays demo_platform ext_ok
        (strtok_words ''notifyon 2 fwupdate /tmp/blob reset now rgb ff0000 idle'')
        \<lparr>command = NONE, notifynumber = 0, mode = currentmode (profile (kb bricked_world))\<rparr>
        bricked_world
   \<and> result_calls (readcmd demo_platform ext_ok \<lparr>tv_sec = 1, tv_nsec = 0\<rparr>
        ''notifyon 2 fwupdate /tmp/blob reset now rgb ff0000 idle'' bricked_world)
       = Some (0, [Mknotifynode 2, Vt_fwupdate 0 0 ''/tmp/blob'', Vt_reset 0 0 0 ''now''])
   \<and> result_bricked (readcmd demo_platform ext_ok \<lparr>tv_sec = 1, tv_nsec = 0\<rparr>
        ''notifyon 2 fwupdate /tmp/blob reset now rgb ff0000 idle'' bricked_world)
       = Some (0, True)"
proof -
  let ?quiet = "''rgb ff0000 idle get :mode''"
  let ?line = "''notifyon 2 fwupdate /tmp/blob reset now rgb ff0000 idle''"
  let ?t = "\<lparr>tv_sec = 1, tv_nsec = 0\<rparr>"
  let ?v0 = "\<lparr>command = NONE, notifynumber = 0, mode = currentmode (profile (kb bricked_world))\<rparr>"
  have h1: "flag_stays demo_platform ext_fw_repairs (strtok_words ?quiet) ?v0 bricked_world"
    by code_simp
  have h2: "flag_stays demo_platform ext_ok (strtok_words ?line) ?v0 bricked_world"
    by code_simp
  have lv: "last_verb demo_platform (strtok_words ?quiet) NONE = GET"
    by code_simp
  have c1: "result_calls (readcmd demo_platform ext_fw_repairs ?t ?quiet bricked_world)
       = Some (0, [])"
    by code_simp
  have c2: "result_calls (readcmd demo_platform ext_ok ?t ?line bricked_world)
       = Some (0, [Mknotifynode 2, Vt_fwupdate 0 0 ''/tmp/blob'', Vt_reset 0 0 0 ''now''])"
    by code_simp
  have e0: "calls bricked_world = []"
    by (simp add: bricked_world_def)
  from bricked_gate[OF h1, of ?t]
  obtain rc w' t where r: "readcmd demo_platform ext_fw_repairs ?t ?quiet bricked_world
        = Some (rc, w')"
    and q: "calls w' = calls bricked_world @ t"
      "kb w' = (if \<not> NDEBUG demo_platform \<and> rc = 0
                     \<and> last_verb demo_platform (strtok_words ?quiet) NONE = RGB
                then (replay ext_fw_repairs (kb bricked_world) t)\<lparr>encounteredleds := {}\<rparr>
                else replay ext_fw_repairs (kb bricked_world) t)"
    by blast
  from c1 r have rc: "rc = 0" and cw: "calls w' = []"
    by (auto simp: result_calls_def called_def)
  from q(1) cw e0 have "t = []" by simp
  with q(2) lv have "kb w' = kb bricked_world" by (simp add: replay_def)
  with cw e0 have "w' = bricked_world" by simp
  with r rc have a: "readcmd demo_platform ext_fw_repairs ?t ?quiet bricked_world
        = Some (0, bricked_world)" by simp
  from bricked_gate[OF h2, of ?t]
  obtain rc2 w2 where r2: "readcmd demo_platform ext_ok ?t ?line bricked_world = Some (rc2, w2)"
    and n: "rc2 = 0 \<longrightarrow> needs_fw_update (kb w2)"
    by blast
  from c2 r2 have "rc2 = 0" by (simp add: result_calls_def)
  with r2 n have "result_bricked (readcmd demo_platform ext_ok ?t ?line bricked_world)
       = Some (0, True)"
    by (simp add: result_bricked_def)
  with a h1 h2 c2 show ?thesis by simp
qed

end
